theory Spec2Isabelle
  imports Main
begin

text \<open>
  A model of \<open>process_file\<close> of the TDS working paper tool: the sheets of a workbook are
  read as grids, a table is found on each sheet below the row that starts with \<open>Date\<close>, its
  first columns are cut out and aligned to the columns of the first table, the keyword
  columns are summed into \<open>TDS_Amount\<close>, and the sheets are stacked into one frame. The
  pandas operations the function calls are written out on frames that are lists of
  labelled columns and indexed rows; an exception is a value \<open>Inl\<close>. Arithmetic in floating
  point and the reading of numbers from text are left to a parameter.
\<close>

section \<open>Python strings\<close>

text \<open>
  A character is a code point below 256 (Latin-1) and a string a list of characters; text
  with other characters is outside the model. On these characters \<open>isspace\<close>, \<open>strip\<close> and
  \<open>lower\<close> are Python's \<open>str\<close> methods: white space is the ASCII white space, the separators
  U+001C to U+001F, U+0085 and U+00A0; \<open>lower\<close> folds \<open>A\<close> to \<open>Z\<close> and the capital letters
  U+00C0 to U+00DE other than the multiplication sign U+00D7, each to the character 32
  places on.
\<close>

definition isspace :: "char \<Rightarrow> bool" where
  "isspace c = (c \<in> set [CHR 0x09, CHR 0x0A, CHR 0x0B, CHR 0x0C, CHR 0x0D,
                          CHR 0x1C, CHR 0x1D, CHR 0x1E, CHR 0x1F, CHR 0x20,
                          CHR 0x85, CHR 0xA0])"

definition strip :: "string \<Rightarrow> string" where
  "strip s = rev (dropWhile isspace (rev (dropWhile isspace s)))"

definition lower_char :: "char \<Rightarrow> char" where
  "lower_char c =
     (let n = (of_char c :: nat)
      in if (65 \<le> n \<and> n \<le> 90) \<or> (192 \<le> n \<and> n \<le> 214) \<or> (216 \<le> n \<and> n \<le> 222)
         then char_of (n + 32) else c)"

definition lower :: "string \<Rightarrow> string" where
  "lower s = map lower_char s"

text \<open>\<open>startswith p s\<close> is \<open>s.startswith(p)\<close>; \<open>str_in p s\<close> is Python's \<open>p in s\<close>.\<close>

fun startswith :: "string \<Rightarrow> string \<Rightarrow> bool" where
  "startswith [] s = True"
| "startswith (p # ps) [] = False"
| "startswith (p # ps) (c # cs) = (p = c \<and> startswith ps cs)"

fun str_in :: "string \<Rightarrow> string \<Rightarrow> bool" where
  "str_in p [] = (p = [])"
| "str_in p (c # cs) = (startswith p (c # cs) \<or> str_in p cs)"

text \<open>\<open>split_comma s\<close> is \<open>s.split(",")\<close>: it never returns the empty list.\<close>

fun split_comma :: "string \<Rightarrow> string list" where
  "split_comma [] = [[]]"
| "split_comma (c # cs) =
     (if c = CHR '','' then [] # split_comma cs
      else (case split_comma cs of [] \<Rightarrow> [[c]] | w # ws \<Rightarrow> (c # w) # ws))"

fun digits :: "nat \<Rightarrow> string" where
  "digits n =
     (if n < 10 then [char_of (48 + n)] else digits (n div 10) @ [char_of (48 + n mod 10)])"

definition str_of_int :: "int \<Rightarrow> string" where
  "str_of_int i = (if i < 0 then CHR ''-'' # digits (nat (- i)) else digits (nat i))"


section \<open>Cells and data frames\<close>

text \<open>
  A cell of a sheet as pandas holds it after reading with \<open>header=None\<close>: empty (\<open>NaN\<close>, also
  \<open>pd.NA\<close>; a text that pandas reads as missing, such as \<open>NA\<close>, \<open>N/A\<close>, \<open>n/a\<close> or \<open>null\<close>, is
  an empty cell of the grid), a text, an integer (a Python \<open>int\<close> or NumPy integer, which
  prints as its digits), a float given by its \<open>str()\<close> (a number of a column held as
  \<open>float64\<close> prints with a decimal point), or any other object that is not a number (a
  date, a time) given by its \<open>str()\<close>. Boolean cells, which pandas counts as 0 and 1, and
  columns that pandas holds as \<open>datetime64\<close> are not modelled.
\<close>

datatype cell = NA | Str string | Num int | Float string | Other string

datatype error = IndexError | AttributeError | KeyError | InvalidIndexError | TypeError

fun py_str :: "cell \<Rightarrow> string" where
  "py_str NA = ''nan''"
| "py_str (Str s) = s"
| "py_str (Num n) = str_of_int n"
| "py_str (Float f) = f"
| "py_str (Other s) = s"

text \<open>Truth value of a label, as \<open>if particulars_col:\<close> tests it.\<close>

fun truthy :: "cell \<Rightarrow> bool" where
  "truthy NA = True"
| "truthy (Str s) = (s \<noteq> [])"
| "truthy (Num n) = (n \<noteq> 0)"
| "truthy (Float f) = (f \<noteq> ''0.0'' \<and> f \<noteq> ''-0.0'')"
| "truthy (Other s) = True"

text \<open>
  Numbers. \<open>pd.to_numeric(..., errors="coerce")\<close> and \<open>sum(axis=1)\<close> work on \<open>int64\<close> and
  \<open>float64\<close>. The model computes the sum of a row itself where both give the exact integer:
  every cell counted is an integer, and the absolute values add up to at most \<open>2^53\<close>.
  Everything else is taken from the library, a parameter of the model: \<open>to_number s\<close> is
  the number that \<open>to_numeric\<close> reads from the text \<open>s\<close> (an integer or a float; any other
  cell says that \<open>s\<close> is not a number), and \<open>machine_sum rows r\<close> is the number that pandas
  gives as the sum to the row \<open>r\<close> of the frame with the rows \<open>rows\<close> when a float is among
  the cells or the integers are too large (rounding above \<open>2^53\<close>, wrap-around at \<open>2^63\<close>).
\<close>

record numeric =
  to_number :: "string \<Rightarrow> cell"
  machine_sum :: "cell list list \<Rightarrow> cell list \<Rightarrow> cell"

text \<open>\<open>to_numeric\<close> on one cell: the cell as a number, empty where it is none.\<close>

fun to_numeric :: "numeric \<Rightarrow> cell \<Rightarrow> cell" where
  "to_numeric lib NA = NA"
| "to_numeric lib (Str s) =
     (case to_number lib s of Num n \<Rightarrow> Num n | Float f \<Rightarrow> Float f | _ \<Rightarrow> NA)"
| "to_numeric lib (Num n) = Num n"
| "to_numeric lib (Float f) = Float f"
| "to_numeric lib (Other s) = NA"

text \<open>The integer that a coerced cell adds to a sum: an empty cell adds 0.\<close>

fun exact :: "cell \<Rightarrow> int option" where
  "exact NA = Some 0"
| "exact (Num n) = Some n"
| "exact (Str s) = None"
| "exact (Float f) = None"
| "exact (Other s) = None"

text \<open>
  \<open>sum(axis=1)\<close> after \<open>apply(pd.to_numeric, errors="coerce")\<close>, for the row \<open>r\<close> of the frame
  with the rows \<open>rows\<close>. A sum \<open>Num n\<close> is the number \<open>n\<close>; whether pandas holds it as \<open>int64\<close>
  or as \<open>float64\<close> depends on the other rows and is not told apart.
\<close>

definition sum_axis1 :: "numeric \<Rightarrow> cell list list \<Rightarrow> cell list \<Rightarrow> cell" where
  "sum_axis1 lib rows r =
     (case those (map (\<lambda>c. exact (to_numeric lib c)) r) of
        Some ns \<Rightarrow>
          if sum_list (map abs ns) \<le> 9007199254740992 then Num (sum_list ns)
          else machine_sum lib rows r
      | None \<Rightarrow> machine_sum lib rows r)"

text \<open>
  A data frame: its column labels (any cell values, duplicates allowed) and its rows, each
  with its index label. Selection by label is pandas': a label selects every column that
  carries it.
\<close>

record dataframe =
  columns :: "cell list"
  body :: "(nat \<times> cell list) list"

definition positions :: "cell list \<Rightarrow> cell \<Rightarrow> nat list" where
  "positions cols l = filter (\<lambda>p. cols ! p = l) [0..<length cols]"

definition get_indexer :: "cell list \<Rightarrow> cell list \<Rightarrow> nat list" where
  "get_indexer cols keys = concat (map (positions cols) keys)"

definition take_cols :: "nat list \<Rightarrow> dataframe \<Rightarrow> dataframe" where
  "take_cols ps df =
     \<lparr>columns = map (\<lambda>p. columns df ! p) ps,
      body = map (\<lambda>(i, r). (i, map (\<lambda>p. r ! p) ps)) (body df)\<rparr>"

text \<open>\<open>df[keys]\<close> and \<open>df.loc[:, keys]\<close> for a list of labels.\<close>

definition getitem_list :: "cell list \<Rightarrow> dataframe \<Rightarrow> error + dataframe" where
  "getitem_list keys df =
     (if \<exists>k \<in> set keys. k \<notin> set (columns df) then Inl KeyError
      else Inr (take_cols (get_indexer (columns df) keys) df))"

text \<open>\<open>df.rename(columns={old: new})\<close>: every label equal to \<open>old\<close> is replaced.\<close>

definition rename :: "cell \<Rightarrow> cell \<Rightarrow> dataframe \<Rightarrow> dataframe" where
  "rename old new df = df\<lparr>columns := map (\<lambda>c. if c = old then new else c) (columns df)\<rparr>"

text \<open>
  Writing a column into the rows that a frame has: \<open>set_column l v df\<close> puts \<open>v i\<close> under the
  label \<open>l\<close> into the row with the index label \<open>i\<close>. Every column that carries the label is
  overwritten in place; a new label is appended as the last column.
\<close>

definition set_column :: "cell \<Rightarrow> (nat \<Rightarrow> cell) \<Rightarrow> dataframe \<Rightarrow> dataframe" where
  "set_column l v df =
     (if l \<in> set (columns df)
      then df\<lparr>body := map (\<lambda>(i, r). (i, map (\<lambda>p. if columns df ! p = l then v i else r ! p)
                                             [0..<length (columns df)])) (body df)\<rparr>
      else \<lparr>columns = columns df @ [l], body = map (\<lambda>(i, r). (i, r @ [v i])) (body df)\<rparr>)"

text \<open>\<open>df[l] = x\<close> for a scalar \<open>x\<close> (\<open>pd.NA\<close>, a text): every row gets \<open>x\<close>.\<close>

definition setitem_scalar :: "cell \<Rightarrow> cell \<Rightarrow> dataframe \<Rightarrow> dataframe" where
  "setitem_scalar l x df = set_column l (\<lambda>i. x) df"

text \<open>
  \<open>df[l] = s\<close> for a Series \<open>s\<close>, given as its index labels with their values: the values
  are aligned on the index labels, and a row of \<open>df\<close> whose label the Series lacks gets an
  empty cell. When \<open>df\<close> has no rows and \<open>s\<close> is not empty, pandas first gives \<open>df\<close> the index
  of \<open>s\<close> (\<open>DataFrame._ensure_valid_index\<close>): a row for every entry of \<open>s\<close>, all its cells
  empty.
\<close>

definition series_at :: "(nat \<times> cell) list \<Rightarrow> nat \<Rightarrow> cell" where
  "series_at s i = (case map_of s i of None \<Rightarrow> NA | Some v \<Rightarrow> v)"

definition ensure_valid_index :: "(nat \<times> cell) list \<Rightarrow> dataframe \<Rightarrow> dataframe" where
  "ensure_valid_index s df =
     (if body df = [] \<and> s \<noteq> []
      then df\<lparr>body := map (\<lambda>(i, v). (i, replicate (length (columns df)) NA)) s\<rparr>
      else df)"

definition setitem_series :: "cell \<Rightarrow> (nat \<times> cell) list \<Rightarrow> dataframe \<Rightarrow> dataframe" where
  "setitem_series l s df = set_column l (series_at s) (ensure_valid_index s df)"

text \<open>\<open>dropna(how="all")\<close> on the rows; the index labels of the kept rows stay.\<close>

definition dropna_all :: "(nat \<times> cell list) list \<Rightarrow> (nat \<times> cell list) list" where
  "dropna_all rs = filter (\<lambda>(i, r). \<exists>c \<in> set r. c \<noteq> NA) rs"

text \<open>
  \<open>pd.read_excel(..., header=None)\<close>: the grid of the sheet, short rows filled with empty
  cells, columns labelled \<open>0, 1, ...\<close>, rows indexed \<open>0, 1, ...\<close>.
\<close>

definition width :: "cell list list \<Rightarrow> nat" where
  "width grid = foldr (\<lambda>r w. max (length r) w) grid 0"

definition pad :: "nat \<Rightarrow> cell list \<Rightarrow> cell list" where
  "pad w r = r @ replicate (w - length r) NA"

definition read_excel :: "cell list list \<Rightarrow> dataframe" where
  "read_excel grid =
     \<lparr>columns = map (\<lambda>p. Num (int p)) [0..<width grid],
      body = zip [0..<length grid] (map (pad (width grid)) grid)\<rparr>"

text \<open>\<open>columns[:k]\<close> for a Python integer \<open>k\<close>.\<close>

definition slice_to :: "int \<Rightarrow> 'a list \<Rightarrow> 'a list" where
  "slice_to k xs = (if 0 \<le> k then take (nat k) xs else take (length xs - nat (- k)) xs)"

section \<open>\<open>process_file\<close>\<close>

definition clean_keywords :: "string \<Rightarrow> string list" where
  "clean_keywords tds_keywords_raw =
     (let tds_keywords = map (\<lambda>k. lower (strip k))
                            (filter (\<lambda>k. strip k \<noteq> []) (split_comma tds_keywords_raw))
      in if tds_keywords = [] then [''tds''] else tds_keywords)"

text \<open>The scan of column 0 for the header row.\<close>

fun find_header :: "(nat \<times> cell list) list \<Rightarrow> nat option" where
  "find_header [] = None"
| "find_header ((i, r) # rs) =
     (if lower (strip (py_str (r ! 0))) = ''date'' then Some i else find_header rs)"

text \<open>
  Lines 61 to 74: the index of the header row; \<open>None\<close> where the loop says \<open>continue\<close>.
\<close>

definition header_row_idx :: "cell list list \<Rightarrow> nat option" where
  "header_row_idx grid =
     (let raw = read_excel grid in
      if dropna_all (body raw) = [] then None else find_header (body raw))"

text \<open>
  The table of a sheet (lines 59 to 82): \<open>None\<close> where the loop says \<open>continue\<close>, otherwise
  the frame \<open>data\<close> with the header row as its column labels.
\<close>

definition detect_table :: "cell list list \<Rightarrow> dataframe option" where
  "detect_table grid =
     (let raw = read_excel grid in
      case header_row_idx grid of
        None \<Rightarrow> None
      | Some h \<Rightarrow>
          (let header = snd (body raw ! h);
               data = \<lparr>columns = header, body = dropna_all (drop (h + 1) (body raw))\<rparr>
           in if body data = [] then None else Some data))"

definition Ledger_Amount :: cell where "Ledger_Amount = Str ''Ledger_Amount''"
definition TDS_Amount :: cell where "TDS_Amount = Str ''TDS_Amount''"
definition LedgerName :: cell where "LedgerName = Str ''LedgerName''"

text \<open>Lines 85 to 89: the first \<open>fixed_cols\<close> labels, selected by label, the last one renamed.\<close>

definition fixed_slice :: "int \<Rightarrow> dataframe \<Rightarrow> error + dataframe" where
  "fixed_slice fixed_cols data =
     (let base_cols = slice_to fixed_cols (columns data);
          base_data = take_cols (get_indexer (columns data) base_cols) data
      in if base_cols = [] then Inl IndexError
         else Inr (rename (last base_cols) Ledger_Amount base_data))"

text \<open>Lines 92 to 104: the rows whose Particulars cell contains \<open>grand total\<close> are removed.\<close>

definition find_particulars :: "cell list \<Rightarrow> cell option" where
  "find_particulars cols = find (\<lambda>col. str_in ''particular'' (lower (py_str col))) cols"

definition is_grand_total :: "cell \<Rightarrow> bool" where
  "is_grand_total c = str_in ''grand total'' (lower (py_str c))"

definition drop_grand_total :: "dataframe \<Rightarrow> error + dataframe" where
  "drop_grand_total base_data =
     (case find_particulars (columns base_data) of
        None \<Rightarrow> Inr base_data
      | Some particulars_col \<Rightarrow>
          if \<not> truthy particulars_col then Inr base_data
          else (case positions (columns base_data) particulars_col of
                  [p] \<Rightarrow> Inr (base_data\<lparr>body := filter (\<lambda>(i, r). \<not> is_grand_total (r ! p))
                                                       (body base_data)\<rparr>)
                | _ \<Rightarrow> Inl AttributeError))"

text \<open>Lines 111 to 114: missing template columns are added as empty, then the template is selected.\<close>

definition add_missing :: "cell list \<Rightarrow> dataframe \<Rightarrow> dataframe" where
  "add_missing template_cols base_data =
     foldl (\<lambda>b col. if col \<in> set (columns b) then b else setitem_scalar col NA b)
           base_data template_cols"

definition align_template :: "cell list \<Rightarrow> dataframe \<Rightarrow> error + dataframe" where
  "align_template template_cols base_data =
     getitem_list template_cols (add_missing template_cols base_data)"

text \<open>
  Lines 117 to 127: the keyword columns of the whole header, selected by label and summed
  row by row; the sums are a Series over the rows of \<open>data\<close>.
\<close>

definition is_tds_col :: "string list \<Rightarrow> cell \<Rightarrow> bool" where
  "is_tds_col tds_keywords col = (\<exists>kw \<in> set tds_keywords. str_in kw (lower (py_str col)))"

definition find_tds_cols :: "string list \<Rightarrow> cell list \<Rightarrow> cell list" where
  "find_tds_cols tds_keywords cols = filter (is_tds_col tds_keywords) cols"

definition add_tds :: "numeric \<Rightarrow> string list \<Rightarrow> dataframe \<Rightarrow> dataframe \<Rightarrow> dataframe" where
  "add_tds lib tds_keywords data base_data =
     (let tds_cols = find_tds_cols tds_keywords (columns data) in
      if tds_cols \<noteq> []
      then (let sel = take_cols (get_indexer (columns data) tds_cols) data;
                tds_sum = map (\<lambda>(i, r). (i, sum_axis1 lib (map snd (body sel)) r)) (body sel)
            in setitem_series TDS_Amount tds_sum base_data)
      else setitem_scalar TDS_Amount NA base_data)"

text \<open>The state of the loop over the sheets.\<close>

record state =
  all_ledgers :: "dataframe list"
  template_cols :: "cell list option"

definition lock_or_align :: "cell list option \<Rightarrow> dataframe \<Rightarrow> error + (dataframe \<times> cell list)" where
  "lock_or_align template base_data =
     (case template of
        None \<Rightarrow> Inr (base_data, columns base_data)
      | Some t \<Rightarrow> (case align_template t base_data of
                    Inl e \<Rightarrow> Inl e
                  | Inr b \<Rightarrow> Inr (b, t)))"

definition sheet_step ::
  "numeric \<Rightarrow> int \<Rightarrow> string list \<Rightarrow> state \<Rightarrow> string \<times> cell list list \<Rightarrow> error + state" where
  "sheet_step lib fixed_cols tds_keywords st sheet =
     (case detect_table (snd sheet) of
        None \<Rightarrow> Inr st
      | Some data \<Rightarrow>
          (case fixed_slice fixed_cols data of
             Inl e \<Rightarrow> Inl e
           | Inr sliced \<Rightarrow>
               (case drop_grand_total sliced of
                  Inl e \<Rightarrow> Inl e
                | Inr filtered \<Rightarrow>
                    (case lock_or_align (template_cols st) filtered of
                       Inl e \<Rightarrow> Inl e
                     | Inr (aligned, t) \<Rightarrow>
                         Inr \<lparr>all_ledgers = all_ledgers st @
                                [setitem_scalar LedgerName (Str (fst sheet))
                                   (add_tds lib tds_keywords data aligned)],
                              template_cols = Some t\<rparr>))))"

fun sheet_loop ::
  "numeric \<Rightarrow> int \<Rightarrow> string list \<Rightarrow> state \<Rightarrow> (string \<times> cell list list) list
     \<Rightarrow> error + state" where
  "sheet_loop lib fixed_cols tds_keywords st [] = Inr st"
| "sheet_loop lib fixed_cols tds_keywords st (sheet # sheets) =
     (case sheet_step lib fixed_cols tds_keywords st sheet of
        Inl e \<Rightarrow> Inl e
      | Inr st' \<Rightarrow> sheet_loop lib fixed_cols tds_keywords st' sheets)"

text \<open>
  \<open>pd.concat(frames, ignore_index=True)\<close>: frames with the same labels are stacked; frames
  with different, duplicate-free labels are stacked over the union of the labels in order
  of first appearance, a missing cell empty; otherwise pandas cannot reindex.
\<close>

definition union_cols :: "cell list list \<Rightarrow> cell list" where
  "union_cols css = rev (remdups (rev (concat css)))"

definition reindex_row :: "cell list \<Rightarrow> cell list \<Rightarrow> cell list \<Rightarrow> cell list" where
  "reindex_row cols target r =
     map (\<lambda>l. case positions cols l of [] \<Rightarrow> NA | p # ps \<Rightarrow> r ! p) target"

definition concat_frames :: "dataframe list \<Rightarrow> error + dataframe" where
  "concat_frames dfs =
     (if \<forall>d \<in> set dfs. columns d = columns (hd dfs)
      then (let rs = concat (map (\<lambda>d. map snd (body d)) dfs)
            in Inr \<lparr>columns = columns (hd dfs), body = zip [0..<length rs] rs\<rparr>)
      else if \<forall>d \<in> set dfs. distinct (columns d)
      then (let cs = union_cols (map columns dfs);
                rs = concat (map (\<lambda>d. map (\<lambda>(i, r). reindex_row (columns d) cs r) (body d)) dfs)
            in Inr \<lparr>columns = cs, body = zip [0..<length rs] rs\<rparr>)
      else Inl InvalidIndexError)"

text \<open>
  \<open>process_file\<close>: \<open>Inl\<close> an exception, \<open>Inr None\<close> the value \<open>None\<close>, \<open>Inr (Some df)\<close> the
  final frame. The workbook is the list of its sheets, each a name and a grid.
\<close>

definition initial :: state where
  "initial = \<lparr>all_ledgers = [], template_cols = None\<rparr>"

definition process_file ::
  "numeric \<Rightarrow> (string \<times> cell list list) list \<Rightarrow> int \<Rightarrow> string \<Rightarrow> error + dataframe option" where
  "process_file lib file fixed_cols tds_keywords_raw =
     (case sheet_loop lib fixed_cols (clean_keywords tds_keywords_raw) initial file of
        Inl e \<Rightarrow> Inl e
      | Inr st \<Rightarrow>
          if all_ledgers st = [] then Inr None
          else (case concat_frames (all_ledgers st) of
                  Inl e \<Rightarrow> Inl e
                | Inr final_df \<Rightarrow>
                    (case template_cols st of
                       None \<Rightarrow> Inl TypeError
                     | Some t \<Rightarrow>
                         (case getitem_list (t @ [TDS_Amount, LedgerName]) final_df of
                            Inl e \<Rightarrow> Inl e
                          | Inr df \<Rightarrow> Inr (Some df)))))"

section \<open>The notions of the specification\<close>

text \<open>
  The definitions of this section are not steps of \<open>process_file\<close>. They say, in the terms of
  the specification, what the result should be, so that the theorems can compare the
  program with them.
\<close>

subsection \<open>Header row and skipped sheets\<close>

text \<open>The cell of a grid row in column 0; an empty cell where the row has no cell.\<close>

definition first_cell :: "cell list \<Rightarrow> cell" where
  "first_cell r = (case r of [] \<Rightarrow> NA | c # cs \<Rightarrow> c)"

definition is_date :: "cell \<Rightarrow> bool" where
  "is_date v = (lower (strip (py_str v)) = ''date'')"

text \<open>The test that \<open>find_header\<close> makes on a row of the frame.\<close>

definition date_row :: "cell list \<Rightarrow> bool" where
  "date_row r = (lower (strip (py_str (r ! 0))) = ''date'')"

definition all_na :: "cell list \<Rightarrow> bool" where
  "all_na r = (\<forall>c \<in> set r. c = NA)"

text \<open>
  The three reasons for skipping a sheet: every cell is empty; no row has \<open>date\<close> in column
  0; every row below the header row (the lowest row with \<open>date\<close> in column 0) is empty.
\<close>

definition empty_grid :: "cell list list \<Rightarrow> bool" where
  "empty_grid grid = (\<forall>r \<in> set grid. all_na r)"

definition no_header_row :: "cell list list \<Rightarrow> bool" where
  "no_header_row grid = (\<forall>r \<in> set grid. \<not> is_date (first_cell r))"

definition empty_body :: "cell list list \<Rightarrow> bool" where
  "empty_body grid =
     (\<exists>h<length grid. is_date (first_cell (grid ! h)) \<and>
        (\<forall>j<h. \<not> is_date (first_cell (grid ! j))) \<and>
        (\<forall>r \<in> set (drop (h + 1) grid). all_na r))"

definition skipped :: "cell list list \<Rightarrow> bool" where
  "skipped grid = (empty_grid grid \<or> no_header_row grid \<or> empty_body grid)"

subsection \<open>Keywords\<close>

text \<open>
  The inverse of cutting at commas, and the keywords as the specification words them:
  going through the pieces in their order, a piece that is empty after trimming is
  dropped, any other is trimmed and lowercased.
\<close>

fun join_comma :: "string list \<Rightarrow> string" where
  "join_comma [] = []"
| "join_comma [w] = w"
| "join_comma (w # v # ws) = w @ CHR '','' # join_comma (v # ws)"

fun keep_keywords :: "string list \<Rightarrow> string list" where
  "keep_keywords [] = []"
| "keep_keywords (w # ws) =
     (if strip w = [] then keep_keywords ws else lower (strip w) # keep_keywords ws)"

subsection \<open>Frames and the keyword columns of a row\<close>

text \<open>A frame is well formed when every row has a cell for every column.\<close>

definition wf :: "dataframe \<Rightarrow> bool" where
  "wf df = (\<forall>x \<in> set (body df). length (snd x) = length (columns df))"

text \<open>
  The header positions whose label has a keyword as a part of its lowercased text, in the
  order and number in which the program's selection by label visits them; the cells of a
  row of the table at these positions; and the value that the row gets as its
  \<open>TDS_Amount\<close>: empty when no label of the header matches, the sum of these cells otherwise.
\<close>

definition keyword_positions :: "string list \<Rightarrow> cell list \<Rightarrow> nat list" where
  "keyword_positions kws header = get_indexer header (find_tds_cols kws header)"

definition keyword_cells :: "string list \<Rightarrow> cell list \<Rightarrow> cell list \<Rightarrow> cell list" where
  "keyword_cells kws header r = map (\<lambda>p. r ! p) (keyword_positions kws header)"

definition keyword_value :: "numeric \<Rightarrow> string list \<Rightarrow> dataframe \<Rightarrow> cell list \<Rightarrow> cell" where
  "keyword_value lib kws data r =
     (if \<forall>l \<in> set (columns data). \<not> is_tds_col kws l then NA
      else sum_axis1 lib (map (\<lambda>x. keyword_cells kws (columns data) (snd x)) (body data))
             (keyword_cells kws (columns data) r))"

text \<open>The values of all rows of the table, as a Series over its index labels.\<close>

definition keyword_series :: "numeric \<Rightarrow> string list \<Rightarrow> dataframe \<Rightarrow> (nat \<times> cell) list" where
  "keyword_series lib kws data =
     map (\<lambda>x. (fst x, keyword_value lib kws data (snd x))) (body data)"

section \<open>Example sheets\<close>

text \<open>
  A numeric library for sheets whose amounts are integers below \<open>2^53\<close> and whose texts are
  no numbers: it reads no text as a number, and its sum is not asked for on such sheets.
\<close>

definition integers_only :: numeric where
  "integers_only = \<lparr>to_number = (\<lambda>s. NA), machine_sum = (\<lambda>rows r. Float ''nan'')\<rparr>"

text \<open>
  Sheet A has a title row and an empty row above its header, a header cell \<open>Date\<close> with a
  leading blank, a keyword column beyond the first three columns, and a grand total row.
  Sheet B has no header row.
\<close>

definition sheetA :: "cell list list" where
  "sheetA = [[Str ''Ledger of A''], [],
             [Str '' Date'', Str ''Particulars'', Str ''Amount'', Str ''TDS Payable''],
             [Other ''2024-01-01'', Str ''Purchase'', Num 100, Num 10],
             [Str ''DATE'', Str ''Grand Total'', Num 100, Num 10]]"

definition dataA :: dataframe where
  "dataA = \<lparr>columns = [Str '' Date'', Str ''Particulars'', Str ''Amount'', Str ''TDS Payable''],
            body = [(3, [Other ''2024-01-01'', Str ''Purchase'', Num 100, Num 10]),
                    (4, [Str ''DATE'', Str ''Grand Total'', Num 100, Num 10])]\<rparr>"

definition sheetB :: "cell list list" where
  "sheetB = [[Str ''Dated'', Num 3], [NA, Str ''Date'']]"

text \<open>Sheets with two columns of the same header.\<close>

definition sheetDup :: "cell list list" where
  "sheetDup = [[Str ''Date'', Str ''Amount'', Str ''Amount''],
               [Str ''1-Apr-2024'', Num 100, Num 7]]"

definition dataDup :: dataframe where
  "dataDup = \<lparr>columns = [Str ''Date'', Str ''Amount'', Str ''Amount''],
              body = [(1, [Str ''1-Apr-2024'', Num 100, Num 7])]\<rparr>"

definition sheetDupTds :: "cell list list" where
  "sheetDupTds = [[Str ''Date'', Str ''Amount'', Str ''TDS'', Str ''TDS''],
                  [Str ''1-Apr-2024'', Num 100, Num 10, Num 5]]"


text \<open>A sheet with pairwise distinct header labels and two columns.\<close>

definition sheetE :: "cell list list" where
  "sheetE = [[Str ''Date'', Str ''Amount''],
             [Str ''1-Apr-2024'', Num 50]]"

text \<open>
  Sheets with pairwise distinct header labels and a keyword column, all of whose rows are
  grand total rows.
\<close>

definition sheetTotals :: "cell list list" where
  "sheetTotals = [[Str ''Date'', Str ''Particulars'', Str ''Amount'', Str ''TDS''],
                  [NA, Str ''Grand Total'', Num 100, Num 7],
                  [NA, Str ''Opening grand total'', Num 50, Num 8]]"

definition dataTotals :: dataframe where
  "dataTotals = \<lparr>columns = [Str ''Date'', Str ''Particulars'', Str ''Amount'', Str ''TDS''],
                 body = [(1, [NA, Str ''Grand Total'', Num 100, Num 7]),
                         (2, [NA, Str ''Opening grand total'', Num 50, Num 8])]\<rparr>"

definition sheetG :: "cell list list" where
  "sheetG = [[Str ''Date'', Str ''Voucher'', Str ''Particulars'', Str ''Amount'', Str ''TDS Payable''],
             [Str ''31-Mar-2025'', Str ''Journal'', Str ''Grand Total'', Num 100, Num 2]]"

text \<open>
  The state of the loop after sheet A, for three fixed columns and the keywords \<open>tds payable\<close>
  and \<open>tds\<close>.
\<close>

definition stateA :: state where
  "stateA = \<lparr>all_ledgers =
               [\<lparr>columns = [Str '' Date'', Str ''Particulars'', Str ''Ledger_Amount'',
                            Str ''TDS_Amount'', Str ''LedgerName''],
                 body = [(3, [Other ''2024-01-01'', Str ''Purchase'', Num 100, Num 10, Str ''A''])]\<rparr>],
             template_cols = Some [Str '' Date'', Str ''Particulars'', Str ''Ledger_Amount'']\<rparr>"

section \<open>Properties\<close>

subsection \<open>Substrings\<close>

lemma startswith_iff: "startswith p s \<longleftrightarrow> (\<exists>b. s = p @ b)"
  by (induction p s rule: startswith.induct) auto

lemma str_in_iff: "str_in p s \<longleftrightarrow> (\<exists>a b. s = a @ p @ b)"
proof (induction s)
  case Nil
  then show ?case by auto
next
  case (Cons c cs)
  show ?case
  proof
    assume "str_in p (c # cs)"
    then consider "startswith p (c # cs)" | "str_in p cs" by auto
    then show "\<exists>a b. c # cs = a @ p @ b"
    proof cases
      case 1
      then obtain b where "c # cs = p @ b" using startswith_iff by blast
      then have "c # cs = [] @ p @ b" by simp
      then show ?thesis by blast
    next
      case 2
      then obtain a b where "cs = a @ p @ b" using Cons.IH by blast
      then have "c # cs = (c # a) @ p @ b" by simp
      then show ?thesis by blast
    qed
  next
    assume "\<exists>a b. c # cs = a @ p @ b"
    then obtain a b where ab: "c # cs = a @ p @ b" by blast
    show "str_in p (c # cs)"
    proof (cases a)
      case Nil
      then have "startswith p (c # cs)" using ab startswith_iff by auto
      then show ?thesis by simp
    next
      case (Cons x a')
      then have "cs = a' @ p @ b" using ab by simp
      then have "str_in p cs" using Cons.IH by blast
      then show ?thesis by simp
    qed
  qed
qed

subsection \<open>The header row (C3)\<close>

lemma is_date_NA: "\<not> is_date NA"
  by code_simp

lemma length_pad: "length r \<le> w \<Longrightarrow> length (pad w r) = w"
  by (simp add: pad_def)

lemma le_width: "r \<in> set grid \<Longrightarrow> length r \<le> width grid"
  unfolding width_def by (induction grid) auto

lemma pad_first: "0 < w \<Longrightarrow> pad w r ! 0 = first_cell r"
  by (cases r) (auto simp: pad_def first_cell_def)

lemma width_pos: "r \<in> set grid \<Longrightarrow> c \<in> set r \<Longrightarrow> 0 < width grid"
  using le_width [of r grid] by (cases r) auto

lemma set_pad: "(\<exists>c \<in> set (pad w r). c \<noteq> NA) \<longleftrightarrow> (\<exists>c \<in> set r. c \<noteq> NA)"
  by (auto simp: pad_def)

lemma find_header_Some:
  "find_header rs = Some h \<longleftrightarrow>
     (\<exists>n<length rs. fst (rs ! n) = h \<and> date_row (snd (rs ! n)) \<and>
                     (\<forall>m<n. \<not> date_row (snd (rs ! m))))"
proof (induction rs)
  case Nil
  then show ?case by simp
next
  case (Cons ir rs)
  obtain i r where ir: "ir = (i, r)" by (cases ir)
  show ?case
  proof (cases "date_row r")
    case True
    have "(\<exists>n<length (ir # rs). fst ((ir # rs) ! n) = h \<and> date_row (snd ((ir # rs) ! n)) \<and>
             (\<forall>m<n. \<not> date_row (snd ((ir # rs) ! m)))) \<longleftrightarrow> h = i"
    proof
      assume "\<exists>n<length (ir # rs). fst ((ir # rs) ! n) = h \<and> date_row (snd ((ir # rs) ! n)) \<and>
             (\<forall>m<n. \<not> date_row (snd ((ir # rs) ! m)))"
      then obtain n where n: "fst ((ir # rs) ! n) = h" "\<forall>m<n. \<not> date_row (snd ((ir # rs) ! m))"
        by blast
      have "n = 0"
      proof (rule ccontr)
        assume "n \<noteq> 0"
        then have "\<not> date_row (snd ((ir # rs) ! 0))" using n(2) by blast
        then show False using True ir by simp
      qed
      then show "h = i" using n(1) ir by simp
    next
      assume "h = i"
      then have "0 < length (ir # rs) \<and> fst ((ir # rs) ! 0) = h \<and> date_row (snd ((ir # rs) ! 0)) \<and>
             (\<forall>m<0. \<not> date_row (snd ((ir # rs) ! m)))"
        using True ir by simp
      then show "\<exists>n<length (ir # rs). fst ((ir # rs) ! n) = h \<and> date_row (snd ((ir # rs) ! n)) \<and>
             (\<forall>m<n. \<not> date_row (snd ((ir # rs) ! m)))" by blast
    qed
    moreover have "find_header (ir # rs) = Some h \<longleftrightarrow> h = i"
      using True ir by (auto simp: date_row_def)
    ultimately show ?thesis by (simp only:)
  next
    case False
    have "(\<exists>n<length (ir # rs). fst ((ir # rs) ! n) = h \<and> date_row (snd ((ir # rs) ! n)) \<and>
             (\<forall>m<n. \<not> date_row (snd ((ir # rs) ! m)))) \<longleftrightarrow>
          (\<exists>n<length rs. fst (rs ! n) = h \<and> date_row (snd (rs ! n)) \<and>
             (\<forall>m<n. \<not> date_row (snd (rs ! m))))" (is "?L \<longleftrightarrow> ?R")
    proof
      assume ?L
      then obtain n where n: "n < length (ir # rs)" "fst ((ir # rs) ! n) = h"
        "date_row (snd ((ir # rs) ! n))" "\<forall>m<n. \<not> date_row (snd ((ir # rs) ! m))"
        by blast
      have "n \<noteq> 0" using n(3) False ir by (cases n) auto
      then obtain n' where n': "n = Suc n'" by (cases n) auto
      have "\<forall>m<n'. \<not> date_row (snd (rs ! m))"
      proof (intro allI impI)
        fix m assume "m < n'"
        then have "Suc m < n" using n' by simp
        then have "\<not> date_row (snd ((ir # rs) ! Suc m))" using n(4) by blast
        then show "\<not> date_row (snd (rs ! m))" by simp
      qed
      then have "n' < length rs \<and> fst (rs ! n') = h \<and> date_row (snd (rs ! n')) \<and>
                 (\<forall>m<n'. \<not> date_row (snd (rs ! m)))"
        using n n' by simp
      then show ?R by blast
    next
      assume ?R
      then obtain n where n: "n < length rs" "fst (rs ! n) = h"
        "date_row (snd (rs ! n))" "\<forall>m<n. \<not> date_row (snd (rs ! m))"
        by blast
      have "\<forall>m<Suc n. \<not> date_row (snd ((ir # rs) ! m))"
      proof (intro allI impI)
        fix m assume m: "m < Suc n"
        show "\<not> date_row (snd ((ir # rs) ! m))"
        proof (cases m)
          case 0
          then show ?thesis using False ir by simp
        next
          case (Suc m')
          then show ?thesis using n(4) m by simp
        qed
      qed
      then have "Suc n < length (ir # rs) \<and> fst ((ir # rs) ! Suc n) = h \<and>
                 date_row (snd ((ir # rs) ! Suc n)) \<and>
                 (\<forall>m<Suc n. \<not> date_row (snd ((ir # rs) ! m)))"
        using n by simp
      then show ?L by blast
    qed
    moreover have "find_header (ir # rs) = find_header rs"
      using False ir by (simp add: date_row_def)
    ultimately show ?thesis using Cons.IH by (simp only:)
  qed
qed

lemma body_read_excel_nth:
  "n < length grid \<Longrightarrow> body (read_excel grid) ! n = (n, pad (width grid) (grid ! n))"
  by (simp add: read_excel_def)

lemma length_body_read_excel: "length (body (read_excel grid)) = length grid"
  by (simp add: read_excel_def)

lemma map_snd_read_excel: "map snd (body (read_excel grid)) = map (pad (width grid)) grid"
  by (simp add: read_excel_def)

lemma dropna_read_excel:
  "dropna_all (body (read_excel grid)) \<noteq> [] \<longleftrightarrow> (\<exists>r \<in> set grid. \<exists>c \<in> set r. c \<noteq> NA)"
proof -
  have "dropna_all (body (read_excel grid)) \<noteq> [] \<longleftrightarrow>
        (\<exists>x \<in> set (body (read_excel grid)). \<exists>c \<in> set (snd x). c \<noteq> NA)"
    by (simp add: dropna_all_def filter_empty_conv case_prod_beta)
  also have "\<dots> \<longleftrightarrow> (\<exists>r \<in> set (map snd (body (read_excel grid))). \<exists>c \<in> set r. c \<noteq> NA)"
    by simp
  also have "\<dots> \<longleftrightarrow> (\<exists>r \<in> set grid. \<exists>c \<in> set (pad (width grid) r). c \<noteq> NA)"
    unfolding map_snd_read_excel by simp
  also have "\<dots> \<longleftrightarrow> (\<exists>r \<in> set grid. \<exists>c \<in> set r. c \<noteq> NA)"
    using set_pad by simp
  finally show ?thesis .
qed

lemma date_row_pad: "0 < w \<Longrightarrow> date_row (pad w r) = is_date (first_cell r)"
  by (simp add: date_row_def is_date_def pad_first)

lemma header_row_idx_Some:
  "header_row_idx grid = Some h \<longleftrightarrow>
     (\<exists>r \<in> set grid. \<exists>c \<in> set r. c \<noteq> NA) \<and> h < length grid \<and>
     is_date (first_cell (grid ! h)) \<and> (\<forall>j<h. \<not> is_date (first_cell (grid ! j)))"
proof (cases "\<exists>r \<in> set grid. \<exists>c \<in> set r. c \<noteq> NA")
  case False
  then have "dropna_all (body (read_excel grid)) = []"
    using dropna_read_excel [of grid] by blast
  then have "header_row_idx grid = None" by (simp add: header_row_idx_def)
  then show ?thesis using False by simp
next
  case True
  then have ne: "dropna_all (body (read_excel grid)) \<noteq> []"
    using dropna_read_excel [of grid] by blast
  have w: "0 < width grid" using True width_pos by blast
  have hri: "header_row_idx grid = find_header (body (read_excel grid))"
    using ne by (simp add: header_row_idx_def)
  have row: "\<And>n. n < length grid \<Longrightarrow>
       fst (body (read_excel grid) ! n) = n \<and>
       date_row (snd (body (read_excel grid) ! n)) = is_date (first_cell (grid ! n))"
    using w by (simp add: body_read_excel_nth date_row_pad)
  show ?thesis
  proof
    assume "header_row_idx grid = Some h"
    then have "find_header (body (read_excel grid)) = Some h" using hri by simp
    then obtain n where n: "n < length grid" "fst (body (read_excel grid) ! n) = h"
      "date_row (snd (body (read_excel grid) ! n))"
      "\<forall>m<n. \<not> date_row (snd (body (read_excel grid) ! m))"
      unfolding find_header_Some length_body_read_excel by blast
    have nh: "n = h" using n(1,2) row by simp
    have "is_date (first_cell (grid ! h))" using n(1,3) nh row by simp
    moreover have "\<forall>j<h. \<not> is_date (first_cell (grid ! j))"
    proof (intro allI impI)
      fix j assume "j < h"
      then have "j < length grid" "\<not> date_row (snd (body (read_excel grid) ! j))"
        using n(1,4) nh by simp_all
      then show "\<not> is_date (first_cell (grid ! j))" using row by simp
    qed
    ultimately show "(\<exists>r \<in> set grid. \<exists>c \<in> set r. c \<noteq> NA) \<and> h < length grid \<and>
       is_date (first_cell (grid ! h)) \<and> (\<forall>j<h. \<not> is_date (first_cell (grid ! j)))"
      using True n(1) nh by simp
  next
    assume a: "(\<exists>r \<in> set grid. \<exists>c \<in> set r. c \<noteq> NA) \<and> h < length grid \<and>
       is_date (first_cell (grid ! h)) \<and> (\<forall>j<h. \<not> is_date (first_cell (grid ! j)))"
    have "\<forall>m<h. \<not> date_row (snd (body (read_excel grid) ! m))"
    proof (intro allI impI)
      fix m assume "m < h"
      then have "m < length grid" "\<not> is_date (first_cell (grid ! m))" using a by simp_all
      then show "\<not> date_row (snd (body (read_excel grid) ! m))" using row by simp
    qed
    then have "h < length (body (read_excel grid)) \<and> fst (body (read_excel grid) ! h) = h \<and>
       date_row (snd (body (read_excel grid) ! h)) \<and>
       (\<forall>m<h. \<not> date_row (snd (body (read_excel grid) ! m)))"
      using a row by (simp add: length_body_read_excel)
    then have "\<exists>n<length (body (read_excel grid)). fst (body (read_excel grid) ! n) = h \<and>
       date_row (snd (body (read_excel grid) ! n)) \<and>
       (\<forall>m<n. \<not> date_row (snd (body (read_excel grid) ! m)))"
      by (intro exI [of _ h])
    then have "find_header (body (read_excel grid)) = Some h"
      by (simp only: find_header_Some)
    then show "header_row_idx grid = Some h" using hri by simp
  qed
qed

lemma header_row_idx_None:
  "(\<forall>j<length grid. \<not> is_date (first_cell (grid ! j))) \<Longrightarrow> header_row_idx grid = None"
proof (rule ccontr)
  assume a: "\<forall>j<length grid. \<not> is_date (first_cell (grid ! j))"
    and "header_row_idx grid \<noteq> None"
  then obtain h where "header_row_idx grid = Some h" by auto
  then have "h < length grid \<and> is_date (first_cell (grid ! h))"
    unfolding header_row_idx_Some by simp
  then show False using a by blast
qed

lemma skip_step: "detect_table (snd sheet) = None \<Longrightarrow> sheet_step parse X kws st sheet = Inr st"
  by (simp add: sheet_step_def)

text \<open>
  C3. The header row index found for a sheet is the lowest row index whose cell in column 0
  (an empty cell where the row is short), trimmed and lowercased, is exactly \<open>date\<close>, on
  every sheet that has a non-empty cell at all; where no row has such a cell, there is no
  header row, no table, and the step of the loop leaves the state as it was: the sheet is
  skipped and no other row is taken as the header.
\<close>

theorem header_row_is_lowest_date_row:
  "(header_row_idx grid = Some h \<longleftrightarrow>
      (\<exists>r \<in> set grid. \<exists>c \<in> set r. c \<noteq> NA) \<and> h < length grid \<and>
      is_date (first_cell (grid ! h)) \<and> (\<forall>j<h. \<not> is_date (first_cell (grid ! j)))) \<and>
   ((\<forall>j<length grid. \<not> is_date (first_cell (grid ! j))) \<longrightarrow>
      header_row_idx grid = None \<and> detect_table grid = None \<and>
      sheet_step parse fixed_cols tds_keywords st (sheet_name, grid) = Inr st)"
proof (intro conjI impI)
  show "header_row_idx grid = Some h \<longleftrightarrow>
      (\<exists>r \<in> set grid. \<exists>c \<in> set r. c \<noteq> NA) \<and> h < length grid \<and>
      is_date (first_cell (grid ! h)) \<and> (\<forall>j<h. \<not> is_date (first_cell (grid ! j)))"
    by (rule header_row_idx_Some)
next
  assume a: "\<forall>j<length grid. \<not> is_date (first_cell (grid ! j))"
  then show n: "header_row_idx grid = None" by (rule header_row_idx_None)
  then show d: "detect_table grid = None" by (simp add: detect_table_def)
  then show "sheet_step parse fixed_cols tds_keywords st (sheet_name, grid) = Inr st"
    by (simp add: skip_step)
qed

theorem header_row_is_lowest_date_row_witness:
  "header_row_idx sheetA = Some 2 \<and>
   sheet_step integers_only 3 [''tds''] initial (''SheetB'', sheetB) = Inr initial"
proof -
  have a: "(\<exists>r \<in> set sheetA. \<exists>c \<in> set r. c \<noteq> NA) \<and> 2 < length sheetA \<and>
      is_date (first_cell (sheetA ! 2)) \<and> (\<forall>j<2. \<not> is_date (first_cell (sheetA ! j)))"
    by code_simp
  have b: "\<forall>j<length sheetB. \<not> is_date (first_cell (sheetB ! j))"
    by code_simp
  show ?thesis
    using header_row_is_lowest_date_row [of sheetA 2 integers_only 3 "[''tds'']" initial "''SheetB''"]
      header_row_is_lowest_date_row [of sheetB 0 integers_only 3 "[''tds'']" initial "''SheetB''"]
      a b
    by blast
qed

subsection \<open>Skipped sheets (C6)\<close>

lemma dropna_empty: "dropna_all rs = [] \<longleftrightarrow> (\<forall>r \<in> set (map snd rs). all_na r)"
  by (auto simp: dropna_all_def filter_empty_conv all_na_def)

lemma all_na_pad: "all_na (pad w r) = all_na r"
  by (auto simp: all_na_def pad_def)

lemma drop_body_read_excel:
  "map snd (drop k (body (read_excel grid))) = map (pad (width grid)) (drop k grid)"
  by (simp add: read_excel_def drop_zip drop_map flip: drop_map)

lemma empty_body_iff:
  "dropna_all (drop k (body (read_excel grid))) = [] \<longleftrightarrow> (\<forall>r \<in> set (drop k grid). all_na r)"
  unfolding dropna_empty drop_body_read_excel by (simp add: all_na_pad)

lemma lowest_date_row:
  assumes "j < length grid" "is_date (first_cell (grid ! j))"
  shows "\<exists>h<length grid. is_date (first_cell (grid ! h)) \<and>
            (\<forall>m<h. \<not> is_date (first_cell (grid ! m)))"
proof -
  define h where "h = (LEAST k. k < length grid \<and> is_date (first_cell (grid ! k)))"
  have ex: "\<exists>k. k < length grid \<and> is_date (first_cell (grid ! k))" using assms by blast
  have h: "h < length grid \<and> is_date (first_cell (grid ! h))"
    unfolding h_def using ex by (rule LeastI_ex)
  have "\<forall>m<h. \<not> is_date (first_cell (grid ! m))"
  proof (intro allI impI notI)
    fix m assume "m < h" "is_date (first_cell (grid ! m))"
    then have "m < length grid \<and> is_date (first_cell (grid ! m))" using h by simp
    then have "h \<le> m" unfolding h_def by (rule Least_le)
    then show False using \<open>m < h\<close> by simp
  qed
  then show ?thesis using h by blast
qed

lemma header_row_idx_None_iff:
  "header_row_idx grid = None \<longleftrightarrow> empty_grid grid \<or> no_header_row grid"
proof
  assume n: "header_row_idx grid = None"
  show "empty_grid grid \<or> no_header_row grid"
  proof (rule ccontr)
    assume "\<not> (empty_grid grid \<or> no_header_row grid)"
    then have ne: "\<exists>r \<in> set grid. \<exists>c \<in> set r. c \<noteq> NA"
      and "\<exists>r \<in> set grid. is_date (first_cell r)"
      by (auto simp: empty_grid_def no_header_row_def all_na_def)
    then obtain j where "j < length grid" "is_date (first_cell (grid ! j))"
      by (auto simp: in_set_conv_nth)
    then obtain h where "h < length grid \<and> is_date (first_cell (grid ! h)) \<and>
            (\<forall>m<h. \<not> is_date (first_cell (grid ! m)))"
      using lowest_date_row by blast
    then have "header_row_idx grid = Some h"
      unfolding header_row_idx_Some using ne by simp
    then show False using n by simp
  qed
next
  assume a: "empty_grid grid \<or> no_header_row grid"
  show "header_row_idx grid = None"
  proof (rule ccontr)
    assume "header_row_idx grid \<noteq> None"
    then obtain h where "header_row_idx grid = Some h" by auto
    then have h: "\<exists>r \<in> set grid. \<exists>c \<in> set r. c \<noteq> NA" "h < length grid"
      "is_date (first_cell (grid ! h))"
      unfolding header_row_idx_Some by simp_all
    have "\<not> empty_grid grid" using h(1) by (auto simp: empty_grid_def all_na_def)
    moreover have "\<not> no_header_row grid"
      using h(2,3) by (auto simp: no_header_row_def)
    ultimately show False using a by simp
  qed
qed

lemma detect_table_None_iff: "detect_table grid = None \<longleftrightarrow> skipped grid"
proof (cases "header_row_idx grid")
  case None
  then have "detect_table grid = None" by (simp add: detect_table_def)
  moreover have "skipped grid"
    using None header_row_idx_None_iff [of grid] by (auto simp: skipped_def)
  ultimately show ?thesis by simp
next
  case (Some h)
  then have h: "(\<exists>r \<in> set grid. \<exists>c \<in> set r. c \<noteq> NA) \<and> h < length grid \<and>
     is_date (first_cell (grid ! h)) \<and> (\<forall>j<h. \<not> is_date (first_cell (grid ! j)))"
    unfolding header_row_idx_Some .
  have not12: "\<not> (empty_grid grid \<or> no_header_row grid)"
    using Some header_row_idx_None_iff [of grid] by simp
  have d: "detect_table grid = None \<longleftrightarrow> dropna_all (drop (h + 1) (body (read_excel grid))) = []"
    using Some by (simp add: detect_table_def Let_def)
  have e: "empty_body grid \<longleftrightarrow> (\<forall>r \<in> set (drop (h + 1) grid). all_na r)"
  proof
    assume "empty_body grid"
    then obtain h' where h': "h' < length grid" "is_date (first_cell (grid ! h'))"
      "\<forall>j<h'. \<not> is_date (first_cell (grid ! j))" "\<forall>r \<in> set (drop (h' + 1) grid). all_na r"
      unfolding empty_body_def by blast
    have "\<not> h < h'" using h h'(3) by blast
    moreover have "\<not> h' < h" using h h'(2) by blast
    ultimately have "h' = h" by simp
    then show "\<forall>r \<in> set (drop (h + 1) grid). all_na r" using h'(4) by simp
  next
    assume "\<forall>r \<in> set (drop (h + 1) grid). all_na r"
    then show "empty_body grid" unfolding empty_body_def using h by blast
  qed
  show ?thesis unfolding d empty_body_iff skipped_def using not12 e by simp
qed

lemma loop_skip:
  "sheet_loop parse X kws st (filter (\<lambda>sh. detect_table (snd sh) \<noteq> None) sheets) =
   sheet_loop parse X kws st sheets"
proof (induction sheets arbitrary: st)
  case Nil
  then show ?case by simp
next
  case (Cons sh sheets)
  show ?case
  proof (cases "detect_table (snd sh)")
    case None
    then show ?thesis using Cons.IH by (simp add: skip_step)
  next
    case (Some data)
    then show ?thesis using Cons.IH by (simp split: sum.splits)
  qed
qed

lemma loop_all_skipped:
  "\<forall>sh \<in> set sheets. detect_table (snd sh) = None \<Longrightarrow> sheet_loop parse X kws st sheets = Inr st"
  by (induction sheets arbitrary: st) (simp_all add: skip_step)

lemma step_appends:
  assumes "detect_table (snd sh) \<noteq> None" "sheet_step parse X kws st sh = Inr st'"
  shows "\<exists>frag. all_ledgers st' = all_ledgers st @ [frag]"
  using assms unfolding sheet_step_def
  by (auto split: option.splits sum.splits prod.splits)

lemma step_length:
  assumes "sheet_step parse X kws st sh = Inr st'"
  shows "length (all_ledgers st) \<le> length (all_ledgers st')"
proof (cases "detect_table (snd sh)")
  case None
  then show ?thesis using assms by (simp add: skip_step)
next
  case (Some data)
  then show ?thesis using step_appends [of sh parse X kws st st'] assms by auto
qed

lemma loop_length:
  "sheet_loop parse X kws st sheets = Inr st' \<Longrightarrow> length (all_ledgers st) \<le> length (all_ledgers st')"
proof (induction sheets arbitrary: st)
  case Nil
  then show ?case by simp
next
  case (Cons sh sheets)
  then obtain st1 where s: "sheet_step parse X kws st sh = Inr st1"
    "sheet_loop parse X kws st1 sheets = Inr st'"
    by (auto split: sum.splits)
  then show ?case using step_length [OF s(1)] Cons.IH [OF s(2)] by simp
qed

lemma loop_empty_all_skipped:
  "sheet_loop parse X kws st sheets = Inr st' \<Longrightarrow> all_ledgers st' = [] \<Longrightarrow>
   \<forall>sh \<in> set sheets. detect_table (snd sh) = None"
proof (induction sheets arbitrary: st)
  case Nil
  then show ?case by simp
next
  case (Cons sh sheets)
  then obtain st1 where s: "sheet_step parse X kws st sh = Inr st1"
    "sheet_loop parse X kws st1 sheets = Inr st'"
    by (auto split: sum.splits)
  have rest: "\<forall>sh \<in> set sheets. detect_table (snd sh) = None"
    using Cons.IH [OF s(2) Cons.prems(2)] .
  have "detect_table (snd sh) = None"
  proof (rule ccontr)
    assume n: "detect_table (snd sh) \<noteq> None"
    then obtain frag where "all_ledgers st1 = all_ledgers st @ [frag]"
      using step_appends [OF n s(1)] by blast
    then have "0 < length (all_ledgers st1)" by simp
    then show False using loop_length [OF s(2)] Cons.prems(2) by simp
  qed
  then show ?case using rest by simp
qed

text \<open>
  C6. A sheet is skipped exactly when its grid is empty, when no row has the header cell, or
  when no non-empty row lies below the header row. When every sheet of the workbook is
  skipped, \<open>process_file\<close> returns \<open>None\<close>, and it returns \<open>None\<close> in no other case: as soon
  as one sheet yields a table the result is a frame, also a frame without rows. A skipped
  sheet raises nothing and leaves no trace: the result is that of the workbook without it.
\<close>

theorem all_skipped_gives_no_data:
  "(\<forall>sh \<in> set sheets. detect_table (snd sh) = None \<longleftrightarrow> skipped (snd sh)) \<and>
   ((\<forall>sh \<in> set sheets. skipped (snd sh)) \<longrightarrow>
      process_file parse sheets fixed_cols tds_keywords_raw = Inr None) \<and>
   (process_file parse sheets fixed_cols tds_keywords_raw = Inr None \<longrightarrow>
      (\<forall>sh \<in> set sheets. skipped (snd sh))) \<and>
   process_file parse (filter (\<lambda>sh. \<not> skipped (snd sh)) sheets) fixed_cols tds_keywords_raw =
     process_file parse sheets fixed_cols tds_keywords_raw"
proof (intro conjI impI)
  show "\<forall>sh \<in> set sheets. detect_table (snd sh) = None \<longleftrightarrow> skipped (snd sh)"
    by (simp add: detect_table_None_iff)
next
  assume "\<forall>sh \<in> set sheets. skipped (snd sh)"
  then have "\<forall>sh \<in> set sheets. detect_table (snd sh) = None"
    by (simp add: detect_table_None_iff)
  then have "sheet_loop parse fixed_cols (clean_keywords tds_keywords_raw) initial sheets = Inr initial"
    by (rule loop_all_skipped)
  then show "process_file parse sheets fixed_cols tds_keywords_raw = Inr None"
    by (simp add: process_file_def initial_def)
next
  assume a: "process_file parse sheets fixed_cols tds_keywords_raw = Inr None"
  then obtain st where st: "sheet_loop parse fixed_cols (clean_keywords tds_keywords_raw) initial sheets = Inr st"
    unfolding process_file_def by (auto split: sum.splits)
  have "all_ledgers st = []"
    using a st unfolding process_file_def by (auto split: sum.splits option.splits if_splits)
  then have "\<forall>sh \<in> set sheets. detect_table (snd sh) = None"
    using loop_empty_all_skipped [OF st] by simp
  then show "\<forall>sh \<in> set sheets. skipped (snd sh)"
    by (simp add: detect_table_None_iff)
next
  have feq: "filter (\<lambda>sh. \<not> skipped (snd sh)) sheets = filter (\<lambda>sh. detect_table (snd sh) \<noteq> None) sheets"
    by (simp add: detect_table_None_iff)
  show "process_file parse (filter (\<lambda>sh. \<not> skipped (snd sh)) sheets) fixed_cols tds_keywords_raw =
     process_file parse sheets fixed_cols tds_keywords_raw"
    unfolding process_file_def feq loop_skip by (rule refl)
qed

theorem all_skipped_gives_no_data_witness:
  "process_file integers_only [(''SheetB'', sheetB), (''Blank'', [[NA], []]), (''HeaderOnly'', [[Str ''Date'']])]
     3 ''tds'' = Inr None"
proof -
  have "\<forall>sh \<in> set [(''SheetB'', sheetB), (''Blank'', [[NA], []]), (''HeaderOnly'', [[Str ''Date'']])].
          skipped (snd sh)"
    by code_simp
  then show ?thesis
    using all_skipped_gives_no_data
      [of "[(''SheetB'', sheetB), (''Blank'', [[NA], []]), (''HeaderOnly'', [[Str ''Date'']])]"
          integers_only 3 "''tds''"]
    by blast
qed

subsection \<open>Keywords\<close>

lemma split_comma_nonempty: "split_comma s \<noteq> []"
  by (induction s) (auto split: list.splits)

lemma join_split_comma: "join_comma (split_comma s) = s"
proof (induction s)
  case Nil
  then show ?case by simp
next
  case (Cons c cs)
  obtain w ws where ws: "split_comma cs = w # ws"
    using split_comma_nonempty [of cs] by (cases "split_comma cs") auto
  show ?case
  proof (cases "c = CHR '',''")
    case True
    then show ?thesis using Cons.IH ws by simp
  next
    case False
    then show ?thesis using Cons.IH ws by (cases ws) simp_all
  qed
qed

lemma split_comma_no_comma: "w \<in> set (split_comma s) \<Longrightarrow> CHR '','' \<notin> set w"
proof (induction s arbitrary: w)
  case Nil
  then show ?case by simp
next
  case (Cons c cs)
  obtain v vs where vs: "split_comma cs = v # vs"
    using split_comma_nonempty [of cs] by (cases "split_comma cs") auto
  show ?case
  proof (cases "c = CHR '',''")
    case True
    then show ?thesis using Cons by auto
  next
    case False
    then have "w = c # v \<or> w \<in> set vs" using Cons.prems vs by simp
    then show ?thesis using Cons.IH vs False by auto
  qed
qed

lemma isspace_code:
  "isspace c \<longleftrightarrow> (of_char c :: nat) \<in> {9, 10, 11, 12, 13, 28, 29, 30, 31, 32, 133, 160}"
proof -
  have e: "c = d \<longleftrightarrow> (of_char c :: nat) = of_char d" for d by simp
  show ?thesis unfolding isspace_def by (simp add: e [of "CHR 0x09"] e [of "CHR 0x0A"]
    e [of "CHR 0x0B"] e [of "CHR 0x0C"] e [of "CHR 0x0D"] e [of "CHR 0x1C"] e [of "CHR 0x1D"]
    e [of "CHR 0x1E"] e [of "CHR 0x1F"] e [of "CHR 0x20"] e [of "CHR 0x85"] e [of "CHR 0xA0"])
qed

lemma of_char_lower: "(of_char (lower_char c) :: nat) =
    (if (65 \<le> (of_char c :: nat) \<and> (of_char c :: nat) \<le> 90) \<or>
        (192 \<le> (of_char c :: nat) \<and> (of_char c :: nat) \<le> 214) \<or>
        (216 \<le> (of_char c :: nat) \<and> (of_char c :: nat) \<le> 222)
     then of_char c + 32 else of_char c)"
  by (simp add: lower_char_def Let_def)

lemma isspace_lower_char: "isspace (lower_char c) = isspace c"
  unfolding isspace_code of_char_lower by auto

lemma lower_char_idem: "lower_char (lower_char c) = lower_char c"
proof -
  have "(of_char (lower_char (lower_char c)) :: nat) = of_char (lower_char c)"
    unfolding of_char_lower by auto
  then show ?thesis by simp
qed

lemma lower_idem: "lower (lower s) = lower s"
  by (simp add: lower_def lower_char_idem)

lemma lower_append: "lower (a @ b) = lower a @ lower b"
  by (simp add: lower_def)

lemma dropWhile_lower: "dropWhile isspace (lower s) = lower (dropWhile isspace s)"
  by (induction s) (simp_all add: lower_def isspace_lower_char)

lemma strip_lower: "strip (lower s) = lower (strip s)"
proof -
  have "rev (lower s) = lower (rev s)" for s by (simp add: lower_def rev_map)
  then show ?thesis by (simp add: strip_def dropWhile_lower)
qed

lemma strip_ends:
  assumes "strip s \<noteq> []"
  shows "\<not> isspace (hd (strip s)) \<and> \<not> isspace (last (strip s))"
proof -
  define t where "t = dropWhile isspace s"
  define u where "u = dropWhile isspace (rev t)"
  have su: "strip s = rev u" by (simp add: strip_def t_def u_def)
  have u: "u \<noteq> []" using assms su by simp
  then have hu: "\<not> isspace (hd u)" unfolding u_def by (rule hd_dropWhile)
  obtain pre where pre: "rev t = pre @ u"
    unfolding u_def by (metis takeWhile_dropWhile_id)
  then have t: "t \<noteq> []" using u by auto
  then have ht: "\<not> isspace (hd t)" unfolding t_def by (rule hd_dropWhile)
  have "last u = last (rev t)" using pre u by simp
  also have "\<dots> = hd t" using t by (simp add: last_rev)
  finally have "hd (rev u) = hd t" using u by (simp add: hd_rev)
  then show ?thesis using hu ht su u by (simp add: last_rev)
qed

lemma dropWhile_id: "xs \<noteq> [] \<Longrightarrow> \<not> P (hd xs) \<Longrightarrow> dropWhile P xs = xs"
  by (cases xs) auto

lemma strip_idem: "strip (strip s) = strip s"
proof (cases "strip s = []")
  case True
  have "strip [] = []" by (simp add: strip_def)
  then show ?thesis using True by simp
next
  case False
  then have e: "\<not> isspace (hd (strip s))" "\<not> isspace (last (strip s))"
    using strip_ends by blast+
  have 1: "dropWhile isspace (strip s) = strip s" using False e(1) by (rule dropWhile_id)
  have "rev (strip s) \<noteq> []" "\<not> isspace (hd (rev (strip s)))"
    using False e(2) by (simp_all add: hd_rev)
  then have 2: "dropWhile isspace (rev (strip s)) = rev (strip s)" by (rule dropWhile_id)
  show ?thesis unfolding strip_def [of "strip s"] 1 2 by simp
qed

lemma clean_keywords_elem:
  assumes "kw \<in> set (clean_keywords raw)"
  shows "kw \<noteq> [] \<and> lower kw = kw \<and> strip kw = kw"
proof (cases "filter (\<lambda>k. strip k \<noteq> []) (split_comma raw) = []")
  case True
  then have "clean_keywords raw = [''tds'']" by (simp add: clean_keywords_def)
  then have "kw = ''tds''" using assms by simp
  moreover have "lower ''tds'' = ''tds''" "strip ''tds'' = ''tds''" by code_simp+
  ultimately show ?thesis by simp
next
  case False
  then have "clean_keywords raw = map (\<lambda>k. lower (strip k)) (filter (\<lambda>k. strip k \<noteq> []) (split_comma raw))"
    by (simp add: clean_keywords_def)
  then obtain k where k: "kw = lower (strip k)" "strip k \<noteq> []" using assms by auto
  have "kw \<noteq> []" using k by (simp add: lower_def)
  moreover have "lower kw = kw" using k by (simp add: lower_idem)
  moreover have "strip kw = kw" using k by (simp add: strip_lower strip_idem)
  ultimately show ?thesis by simp
qed

lemma find_tds_cols_iff:
  "find_tds_cols kws cols =
     filter (\<lambda>col. \<exists>kw \<in> set kws. \<exists>a b. lower (py_str col) = a @ kw @ b) cols"
  by (simp add: find_tds_cols_def is_tds_col_def [abs_def] str_in_iff)

lemma keyword_matches_any_case:
  assumes "k \<in> set (split_comma raw)" "strip k \<noteq> []" "lower k' = lower (strip k)"
  shows "is_tds_col (clean_keywords raw) (Str (a @ k' @ b))"
proof -
  have ne: "filter (\<lambda>k. strip k \<noteq> []) (split_comma raw) \<noteq> []"
    using assms(1,2) by (auto simp: filter_empty_conv)
  then have "lower (strip k) \<in> set (clean_keywords raw)"
    using assms(1,2) by (auto simp: clean_keywords_def)
  moreover have "lower (py_str (Str (a @ k' @ b))) = lower a @ lower (strip k) @ lower b"
    using assms(3) by (simp add: lower_append)
  ultimately show ?thesis unfolding is_tds_col_def str_in_iff by blast
qed

subsection \<open>Selection by label\<close>

lemma positions_set: "set (positions cols l) = {p. p < length cols \<and> cols ! p = l}"
  by (auto simp: positions_def)

lemma wf_take_cols: "wf (take_cols ps df)"
  by (auto simp: wf_def take_cols_def)

lemma fst_take_cols: "map fst (body (take_cols ps df)) = map fst (body df)"
  by (simp add: take_cols_def case_prod_beta)

lemma columns_setitem:
  "columns (set_column l v df) = (if l \<in> set (columns df) then columns df else columns df @ [l])"
  by (simp add: set_column_def)

lemma fst_setitem: "map fst (body (set_column l v df)) = map fst (body df)"
  by (simp add: set_column_def case_prod_beta)

lemma wf_setitem: "wf df \<Longrightarrow> wf (set_column l v df)"
  by (auto simp: wf_def set_column_def)

lemma length_body_setitem: "length (body (set_column l v df)) = length (body df)"
  by (simp add: set_column_def)

lemma setitem_nth:
  assumes "wf df" "n < length (body df)"
  shows "fst (body (set_column l v df) ! n) = fst (body df ! n) \<and>
         length (snd (body (set_column l v df) ! n)) = length (columns (set_column l v df)) \<and>
         (\<forall>q<length (columns (set_column l v df)).
            snd (body (set_column l v df) ! n) ! q =
              (if columns (set_column l v df) ! q = l then v (fst (body df ! n))
               else snd (body df ! n) ! q))"
proof -
  obtain i r where ir: "body df ! n = (i, r)" by (cases "body df ! n")
  then have len: "length r = length (columns df)"
    using assms unfolding wf_def by (metis nth_mem snd_conv)
  show ?thesis
  proof (cases "l \<in> set (columns df)")
    case True
    then show ?thesis using assms(2) ir by (simp add: set_column_def)
  next
    case False
    then have "\<forall>q<length (columns df). columns df ! q \<noteq> l" by auto
    then show ?thesis using assms(2) ir False len
      by (auto simp: set_column_def nth_append less_Suc_eq)
  qed
qed

subsection \<open>The table of a sheet\<close>

lemma detect_table_Some:
  assumes "detect_table grid = Some data"
  shows "\<exists>h. header_row_idx grid = Some h \<and> h < length grid \<and>
             columns data = pad (width grid) (grid ! h) \<and>
             body data = dropna_all (drop (h + 1) (body (read_excel grid))) \<and> body data \<noteq> []"
proof -
  obtain h where h: "header_row_idx grid = Some h"
    using assms by (cases "header_row_idx grid") (auto simp: detect_table_def)
  then have hl: "h < length grid" unfolding header_row_idx_Some by simp
  have "data = \<lparr>columns = snd (body (read_excel grid) ! h),
                 body = dropna_all (drop (h + 1) (body (read_excel grid)))\<rparr> \<and>
        dropna_all (drop (h + 1) (body (read_excel grid))) \<noteq> []"
    using assms h by (auto simp: detect_table_def Let_def split: if_splits)
  then show ?thesis using h hl by (auto simp: body_read_excel_nth)
qed

lemma width_pos_header: "header_row_idx grid = Some h \<Longrightarrow> 0 < width grid"
  unfolding header_row_idx_Some using width_pos by blast

lemma in_body_read_excel:
  "x \<in> set (body (read_excel grid)) \<Longrightarrow>
     fst x < length grid \<and> snd x = pad (width grid) (grid ! fst x)"
  by (auto simp: read_excel_def set_zip)

lemma length_row_read_excel:
  "x \<in> set (body (read_excel grid)) \<Longrightarrow> length (snd x) = width grid"
proof -
  assume a: "x \<in> set (body (read_excel grid))"
  then have "fst x < length grid" "snd x = pad (width grid) (grid ! fst x)"
    using in_body_read_excel by blast+
  then show ?thesis using le_width [of "grid ! fst x" grid] by (simp add: length_pad)
qed

lemma wf_detect_table:
  assumes "detect_table grid = Some data"
  shows "wf data" "columns data \<noteq> []" "distinct (map fst (body data))"
proof -
  obtain h where h: "header_row_idx grid = Some h" "h < length grid"
    "columns data = pad (width grid) (grid ! h)"
    "body data = dropna_all (drop (h + 1) (body (read_excel grid)))"
    using detect_table_Some [OF assms] by blast
  have w: "0 < width grid" using h(1) by (rule width_pos_header)
  have lc: "length (columns data) = width grid"
    using h(2,3) le_width [of "grid ! h" grid] by (simp add: length_pad)
  show "columns data \<noteq> []" using lc w by auto
  have sub: "set (body data) \<subseteq> set (body (read_excel grid))"
    unfolding h(4) dropna_all_def by (auto dest: in_set_dropD)
  show "wf data" unfolding wf_def using sub lc length_row_read_excel by auto
  have "map fst (body (read_excel grid)) = [0..<length grid]"
    by (simp add: read_excel_def)
  then have "distinct (map fst (body (read_excel grid)))" by simp
  then have "distinct (map fst (drop (h + 1) (body (read_excel grid))))"
    by (simp add: distinct_drop flip: drop_map)
  then show "distinct (map fst (body data))"
    unfolding h(4) dropna_all_def by (rule distinct_map_filter)
qed

subsection \<open>The steps on a table\<close>

lemma particular_truthy:
  assumes "str_in ''particular'' (lower (py_str c))"
  shows "truthy c"
proof (cases c)
  case (Str s)
  then have "s \<noteq> []" using assms by (auto simp: lower_def)
  then show ?thesis using Str by simp
next
  case (Num n)
  have "\<not> str_in ''particular'' (lower (py_str (Num 0)))" by code_simp
  then have "n \<noteq> 0" using assms Num by auto
  then show ?thesis using Num by simp
next
  case (Float f)
  have "\<not> str_in ''particular'' (lower ''0.0'')" "\<not> str_in ''particular'' (lower ''-0.0'')"
    by code_simp+
  then have "f \<noteq> ''0.0'' \<and> f \<noteq> ''-0.0''" using assms Float by auto
  then show ?thesis using Float by simp
qed simp_all

lemma find_particulars_Some:
  assumes "find_particulars cols = Some pc"
  shows "\<exists>p<length cols. cols ! p = pc \<and> str_in ''particular'' (lower (py_str pc)) \<and>
           (\<forall>q<p. \<not> str_in ''particular'' (lower (py_str (cols ! q))))"
  using assms unfolding find_particulars_def find_Some_iff by blast

lemma drop_grand_total_Some:
  assumes "find_particulars (columns b) = Some pc" "drop_grand_total b = Inr f"
  shows "\<exists>p. positions (columns b) pc = [p] \<and>
             f = b\<lparr>body := filter (\<lambda>(i, r). \<not> is_grand_total (r ! p)) (body b)\<rparr>"
proof -
  have "str_in ''particular'' (lower (py_str pc))"
    using find_particulars_Some [OF assms(1)] by blast
  then have t: "truthy pc" by (rule particular_truthy)
  show ?thesis
    using assms t unfolding drop_grand_total_def
    by (auto split: list.splits)
qed

lemma add_missing_Cons:
  "add_missing (col # T) b =
     add_missing T (if col \<in> set (columns b) then b else set_column col (\<lambda>i. NA) b)"
  by (simp add: add_missing_def setitem_scalar_def)

lemma fst_add_missing: "map fst (body (add_missing T b)) = map fst (body b)"
proof (induction T arbitrary: b)
  case Nil
  then show ?case by (simp add: add_missing_def)
next
  case (Cons col T)
  show ?case unfolding add_missing_Cons Cons.IH by (simp add: fst_setitem)
qed

lemma map_of_rows:
  assumes "(i, r) \<in> set xs" "distinct (map fst xs)"
  shows "map_of (map (\<lambda>(i, r). (i, f r)) xs) i = Some (f r)"
proof -
  have "(i, f r) \<in> set (map (\<lambda>(i, r). (i, f r)) xs)" using assms(1) by force
  moreover have "map fst (map (\<lambda>(i, r). (i, f r)) xs) = map fst xs"
    by (simp add: case_prod_beta)
  ultimately show ?thesis using assms(2) by (metis map_of_is_SomeI)
qed

lemma step_decompose:
  assumes "detect_table grid = Some data" "sheet_step parse X kws st (name, grid) = Inr st'"
  shows "\<exists>sliced filtered aligned T.
           fixed_slice X data = Inr sliced \<and> drop_grand_total sliced = Inr filtered \<and>
           lock_or_align (template_cols st) filtered = Inr (aligned, T) \<and>
           st' = \<lparr>all_ledgers = all_ledgers st @
                     [set_column LedgerName (\<lambda>i. Str name) (add_tds parse kws data aligned)],
                  template_cols = Some T\<rparr>"
  using assms unfolding sheet_step_def setitem_scalar_def
  by (auto split: sum.splits prod.splits)

lemma fixed_slice_Inr:
  assumes "fixed_slice X data = Inr sliced"
  shows "wf sliced" "map fst (body sliced) = map fst (body data)"
proof -
  have s: "sliced = rename (last (slice_to X (columns data))) Ledger_Amount
             (take_cols (get_indexer (columns data) (slice_to X (columns data))) data)"
    using assms by (auto simp: fixed_slice_def Let_def split: if_splits)
  show "wf sliced" unfolding s using wf_take_cols [of "get_indexer (columns data) (slice_to X (columns data))" data]
    by (simp add: wf_def rename_def)
  show "map fst (body sliced) = map fst (body data)"
    unfolding s by (simp add: rename_def fst_take_cols)
qed

lemma drop_grand_total_Inr:
  assumes "drop_grand_total b = Inr f"
  shows "columns f = columns b" "\<exists>P. body f = filter P (body b)"
proof -
  have "columns f = columns b \<and> (\<exists>P. body f = filter P (body b))"
  proof (cases "find_particulars (columns b)")
    case None
    then have "f = b" using assms by (simp add: drop_grand_total_def)
    moreover have "body b = filter (\<lambda>x. True) (body b)" by simp
    ultimately show ?thesis by blast
  next
    case (Some pc)
    then obtain p where "f = b\<lparr>body := filter (\<lambda>(i, r). \<not> is_grand_total (r ! p)) (body b)\<rparr>"
      using drop_grand_total_Some [OF Some assms] by blast
    then show ?thesis by auto
  qed
  then show "columns f = columns b" "\<exists>P. body f = filter P (body b)" by simp_all
qed

lemma wf_filter: "wf b \<Longrightarrow> columns f = columns b \<Longrightarrow> body f = filter P (body b) \<Longrightarrow> wf f"
  by (simp add: wf_def)

lemma lock_or_align_Inr:
  assumes "lock_or_align t f = Inr (a, T)" "wf f"
  shows "wf a" "map fst (body a) = map fst (body f)"
proof -
  have "wf a \<and> map fst (body a) = map fst (body f)"
  proof (cases t)
    case None
    then show ?thesis using assms by (simp add: lock_or_align_def)
  next
    case (Some t')
    then have "align_template t' f = Inr a"
      using assms(1) by (auto simp: lock_or_align_def split: sum.splits)
    then have "a = take_cols (get_indexer (columns (add_missing t' f)) t') (add_missing t' f)"
      by (auto simp: align_template_def getitem_list_def split: if_splits)
    then show ?thesis by (simp add: wf_take_cols fst_take_cols fst_add_missing)
  qed
  then show "wf a" "map fst (body a) = map fst (body f)" by simp_all
qed

lemma TDS_neq_Ledger: "LedgerName \<noteq> TDS_Amount"
  by (simp add: TDS_Amount_def LedgerName_def)

lemma in_set_body_nth:
  assumes "x \<in> set (body df)"
  shows "\<exists>n<length (body df). body df ! n = x"
  using assms by (auto simp: in_set_conv_nth)

lemma tds_cells:
  assumes "wf aligned"
    and frag_def: "frag = set_column LedgerName (\<lambda>i. Str name) (set_column TDS_Amount v aligned)"
  shows "TDS_Amount \<in> set (columns frag)"
    "map fst (body frag) = map fst (body aligned)"
    "(i, r') \<in> set (body frag) \<Longrightarrow> q < length (columns frag) \<Longrightarrow>
       columns frag ! q = TDS_Amount \<Longrightarrow> r' ! q = v i"
proof -
  define b1 where "b1 = set_column TDS_Amount v aligned"
  have wb1: "wf b1" unfolding b1_def using assms(1) by (rule wf_setitem)
  have c1: "TDS_Amount \<in> set (columns b1)" unfolding b1_def by (simp add: columns_setitem)
  have fr: "frag = set_column LedgerName (\<lambda>i. Str name) b1" unfolding frag_def b1_def ..
  show "TDS_Amount \<in> set (columns frag)" unfolding fr using c1 by (simp add: columns_setitem)
  show "map fst (body frag) = map fst (body aligned)"
    unfolding fr b1_def by (simp add: fst_setitem)
  assume a: "(i, r') \<in> set (body frag)" "q < length (columns frag)" "columns frag ! q = TDS_Amount"
  obtain n where n: "n < length (body frag)" "body frag ! n = (i, r')"
    using in_set_body_nth [OF a(1)] by blast
  have n1: "n < length (body b1)" using n(1) unfolding fr by (simp add: length_body_setitem)
  have na: "n < length (body aligned)" using n1 unfolding b1_def by (simp add: length_body_setitem)
  note s2 = setitem_nth [OF wb1 n1, of LedgerName "\<lambda>i. Str name", folded fr]
  note s1 = setitem_nth [OF assms(1) na, of TDS_Amount v, folded b1_def]
  have q1: "q < length (columns b1) \<and> columns b1 ! q = TDS_Amount"
  proof (cases "LedgerName \<in> set (columns b1)")
    case True
    then have "columns frag = columns b1" unfolding fr by (simp add: columns_setitem)
    then show ?thesis using a(2,3) by simp
  next
    case False
    then have c: "columns frag = columns b1 @ [LedgerName]" unfolding fr by (simp add: columns_setitem)
    have "q \<noteq> length (columns b1)" using a(3) c TDS_neq_Ledger by auto
    then have "q < length (columns b1)" using a(2) c by simp
    then show ?thesis using a(3) c by (simp add: nth_append)
  qed
  have "r' ! q = snd (body b1 ! n) ! q"
    using s2 n(2) a(2,3) TDS_neq_Ledger by simp
  also have "\<dots> = v (fst (body aligned ! n))" using s1 q1 by simp
  also have "fst (body aligned ! n) = i"
    using s1 s2 n(2) by simp
  finally show "r' ! q = v i" .
qed

lemma keyword_positions_set:
  "set (keyword_positions kws header) = {p. p < length header \<and> is_tds_col kws (header ! p)}"
  by (auto simp: keyword_positions_def get_indexer_def find_tds_cols_def positions_set)

lemma find_tds_cols_Nil: "find_tds_cols kws header = [] \<longleftrightarrow> (\<forall>l \<in> set header. \<not> is_tds_col kws l)"
  by (simp add: find_tds_cols_def filter_empty_conv)

lemma add_tds_none:
  assumes "find_tds_cols kws (columns data) = []"
  shows "add_tds lib kws data base = set_column TDS_Amount (\<lambda>i. NA) base"
  using assms by (simp add: add_tds_def setitem_scalar_def)

lemma add_tds_some:
  assumes "find_tds_cols kws (columns data) \<noteq> []"
  shows "add_tds lib kws data base =
           set_column TDS_Amount (series_at (keyword_series lib kws data))
             (ensure_valid_index (keyword_series lib kws data) base)"
proof -
  define idx where "idx = get_indexer (columns data) (find_tds_cols kws (columns data))"
  have n: "\<not> (\<forall>l \<in> set (columns data). \<not> is_tds_col kws l)"
    using assms by (simp add: find_tds_cols_Nil)
  have b: "body (take_cols idx data) = map (\<lambda>x. (fst x, map (\<lambda>p. snd x ! p) idx)) (body data)"
    by (simp add: take_cols_def case_prod_beta)
  have "map (\<lambda>(i, r). (i, sum_axis1 lib (map snd (body (take_cols idx data))) r))
            (body (take_cols idx data)) = keyword_series lib kws data"
    unfolding b keyword_series_def keyword_value_def keyword_cells_def keyword_positions_def
    using n by (auto simp: idx_def comp_def)
  then show ?thesis
    using assms by (simp add: add_tds_def setitem_series_def Let_def idx_def)
qed

lemma keyword_series_at:
  assumes "(i, r) \<in> set (body data)" "distinct (map fst (body data))"
  shows "series_at (keyword_series lib kws data) i = keyword_value lib kws data r"
proof -
  have "keyword_series lib kws data = map (\<lambda>(i, r). (i, keyword_value lib kws data r)) (body data)"
    by (simp add: keyword_series_def case_prod_beta)
  then have "map_of (keyword_series lib kws data) i = Some (keyword_value lib kws data r)"
    using map_of_rows [OF assms, of "keyword_value lib kws data"] by simp
  then show ?thesis by (simp add: series_at_def)
qed

lemma fst_keyword_series: "map fst (keyword_series lib kws data) = map fst (body data)"
  by (simp add: keyword_series_def comp_def)

lemma wf_ensure_valid_index: "wf df \<Longrightarrow> wf (ensure_valid_index s df)"
  by (auto simp: wf_def ensure_valid_index_def)

lemma fst_ensure_valid_index:
  "set (map fst (body (ensure_valid_index s df))) \<subseteq> set (map fst (body df)) \<union> set (map fst s)"
proof (cases "body df = [] \<and> s \<noteq> []")
  case True
  then have "map fst (body (ensure_valid_index s df)) = map fst s"
    by (simp add: ensure_valid_index_def case_prod_beta comp_def)
  then show ?thesis by simp
next
  case False
  then have "ensure_valid_index s df = df" by (auto simp: ensure_valid_index_def)
  then show ?thesis by simp
qed

lemma step_tds_cells:
  assumes "detect_table grid = Some data" "sheet_step lib X kws st (name, grid) = Inr st'"
  shows "\<exists>frag. all_ledgers st' = all_ledgers st @ [frag] \<and> TDS_Amount \<in> set (columns frag) \<and>
           (\<forall>x \<in> set (body frag). \<exists>r. (fst x, r) \<in> set (body data) \<and>
              (\<forall>q<length (columns frag). columns frag ! q = TDS_Amount \<longrightarrow>
                 snd x ! q = keyword_value lib kws data r))"
proof -
  obtain sliced filtered aligned T where d:
    "fixed_slice X data = Inr sliced" "drop_grand_total sliced = Inr filtered"
    "lock_or_align (template_cols st) filtered = Inr (aligned, T)"
    "st' = \<lparr>all_ledgers = all_ledgers st @
               [set_column LedgerName (\<lambda>i. Str name) (add_tds lib kws data aligned)],
            template_cols = Some T\<rparr>"
    using step_decompose [OF assms] by blast
  define frag where "frag = set_column LedgerName (\<lambda>i. Str name) (add_tds lib kws data aligned)"
  have wd: "wf data" "distinct (map fst (body data))" using wf_detect_table [OF assms(1)] by simp_all
  have ws: "wf sliced" "map fst (body sliced) = map fst (body data)"
    using fixed_slice_Inr [OF d(1)] by simp_all
  obtain P where f: "columns filtered = columns sliced" "body filtered = filter P (body sliced)"
    using drop_grand_total_Inr [OF d(2)] by blast
  have wfl: "wf filtered" using ws(1) f by (rule wf_filter)
  have wa: "wf aligned" "map fst (body aligned) = map fst (body filtered)"
    using lock_or_align_Inr [OF d(3) wfl] by simp_all
  have ia: "set (map fst (body aligned)) \<subseteq> set (map fst (body data))"
    unfolding wa(2) f(2) ws(2) [symmetric] by auto
  have main: "TDS_Amount \<in> set (columns frag) \<and>
           (\<forall>x \<in> set (body frag). \<exists>r. (fst x, r) \<in> set (body data) \<and>
              (\<forall>q<length (columns frag). columns frag ! q = TDS_Amount \<longrightarrow>
                 snd x ! q = keyword_value lib kws data r))"
  proof (cases "find_tds_cols kws (columns data) = []")
    case True
    have fr: "frag = set_column LedgerName (\<lambda>i. Str name) (set_column TDS_Amount (\<lambda>i. NA) aligned)"
      unfolding frag_def add_tds_none [OF True] ..
    note tc = tds_cells [OF wa(1) fr]
    have kv: "keyword_value lib kws data r = NA" for r
      using True by (simp add: keyword_value_def find_tds_cols_Nil)
    have "\<exists>r. (fst x, r) \<in> set (body data) \<and>
              (\<forall>q<length (columns frag). columns frag ! q = TDS_Amount \<longrightarrow>
                 snd x ! q = keyword_value lib kws data r)" if x: "x \<in> set (body frag)" for x
    proof -
      have "fst x \<in> set (map fst (body frag))" using x by simp
      then have "fst x \<in> set (map fst (body data))" using tc(2) ia by auto
      then obtain r where r: "(fst x, r) \<in> set (body data)" by auto
      have "(fst x, snd x) \<in> set (body frag)" using x by simp
      then have "\<forall>q<length (columns frag). columns frag ! q = TDS_Amount \<longrightarrow> snd x ! q = NA"
        using tc(3) by blast
      then show ?thesis using r kv by auto
    qed
    then show ?thesis using tc(1) by blast
  next
    case False
    define s where "s = keyword_series lib kws data"
    define base where "base = ensure_valid_index s aligned"
    have fr: "frag = set_column LedgerName (\<lambda>i. Str name) (set_column TDS_Amount (series_at s) base)"
      unfolding frag_def add_tds_some [OF False] s_def base_def ..
    have wb: "wf base" unfolding base_def using wa(1) by (rule wf_ensure_valid_index)
    note tc = tds_cells [OF wb fr]
    have ib: "set (map fst (body base)) \<subseteq> set (map fst (body data))"
      using fst_ensure_valid_index [of s aligned] ia
      unfolding base_def s_def fst_keyword_series by blast
    have "\<exists>r. (fst x, r) \<in> set (body data) \<and>
              (\<forall>q<length (columns frag). columns frag ! q = TDS_Amount \<longrightarrow>
                 snd x ! q = keyword_value lib kws data r)" if x: "x \<in> set (body frag)" for x
    proof -
      have "fst x \<in> set (map fst (body frag))" using x by simp
      then have "fst x \<in> set (map fst (body data))" using tc(2) ib by auto
      then obtain r where r: "(fst x, r) \<in> set (body data)" by auto
      have "(fst x, snd x) \<in> set (body frag)" using x by simp
      then have "\<forall>q<length (columns frag). columns frag ! q = TDS_Amount \<longrightarrow> snd x ! q = series_at s (fst x)"
        using tc(3) by blast
      moreover have "series_at s (fst x) = keyword_value lib kws data r"
        unfolding s_def using r wd(2) by (rule keyword_series_at)
      ultimately show ?thesis using r by auto
    qed
    then show ?thesis using tc(1) by blast
  qed
  show ?thesis using main d(4) unfolding frag_def by auto
qed

subsection \<open>Keyword columns of the whole header (C4)\<close>

lemma keep_keywords_eq:
  "keep_keywords ws = map (\<lambda>k. lower (strip k)) (filter (\<lambda>k. strip k \<noteq> []) ws)"
  by (induction ws) simp_all

lemma clean_keywords_keep:
  "clean_keywords raw =
     (case keep_keywords (split_comma raw) of [] \<Rightarrow> [''tds''] | k # ks \<Rightarrow> k # ks)"
  unfolding keep_keywords_eq clean_keywords_def Let_def
  by (cases "map (\<lambda>k. lower (strip k)) (filter (\<lambda>k. strip k \<noteq> []) (split_comma raw))") simp_all

lemma is_tds_col_iff:
  "is_tds_col kws col \<longleftrightarrow> (\<exists>kw \<in> set kws. \<exists>a b. lower (py_str col) = a @ kw @ b)"
  by (simp add: is_tds_col_def str_in_iff)

text \<open>
  C4. The keyword text is cut at its commas (the pieces, joined by commas, give the text back
  and hold no comma); the keywords are the pieces in their order, trimmed and lowercased,
  without those that are empty after trimming, and the single keyword \<open>tds\<close> when none is
  left; so every keyword is non-empty, lowercase and free of surrounding white space. The
  columns found for a header are all its labels, wherever they stand in the header, whose
  lowercased text has a keyword as a contiguous part, so a label that contains a keyword
  in any mix of upper and lower case is among them; the positions selected for them are
  all header positions with such a label. The step of the loop uses them on the whole
  header of the sheet, whatever the number of fixed columns: when it returns, the fragment
  it appends has a \<open>TDS_Amount\<close> column, and every row of the fragment comes from a row of
  the table and holds under \<open>TDS_Amount\<close> the value of that row over the keyword columns of
  the whole header, which is empty when no label of the header matches.
\<close>

theorem keywords_and_column_discovery:
  "join_comma (split_comma raw) = raw \<and>
   (\<forall>w \<in> set (split_comma raw). CHR '','' \<notin> set w) \<and>
   clean_keywords raw =
     (case keep_keywords (split_comma raw) of [] \<Rightarrow> [''tds''] | k # ks \<Rightarrow> k # ks) \<and>
   (\<forall>kw \<in> set (clean_keywords raw). kw \<noteq> [] \<and> lower kw = kw \<and> strip kw = kw) \<and>
   find_tds_cols kws header =
     filter (\<lambda>col. \<exists>kw \<in> set kws. \<exists>a b. lower (py_str col) = a @ kw @ b) header \<and>
   set (keyword_positions kws header) =
     {p. p < length header \<and> (\<exists>kw \<in> set kws. \<exists>a b. lower (py_str (header ! p)) = a @ kw @ b)} \<and>
   (\<forall>k \<in> set (split_comma raw). strip k \<noteq> [] \<longrightarrow>
      (\<forall>k' a b. lower k' = lower (strip k) \<longrightarrow> Str (a @ k' @ b) \<in> set header \<longrightarrow>
         Str (a @ k' @ b) \<in> set (find_tds_cols (clean_keywords raw) header))) \<and>
   (\<forall>data st'. detect_table grid = Some data \<and>
        sheet_step lib fixed_cols (clean_keywords raw) st (sheet_name, grid) = Inr st' \<longrightarrow>
      (\<exists>frag. all_ledgers st' = all_ledgers st @ [frag] \<and> TDS_Amount \<in> set (columns frag) \<and>
         (\<forall>x \<in> set (body frag). \<exists>r. (fst x, r) \<in> set (body data) \<and>
            (\<forall>q<length (columns frag). columns frag ! q = TDS_Amount \<longrightarrow>
               snd x ! q = keyword_value lib (clean_keywords raw) data r))))"
proof (intro conjI ballI impI allI)
  show "join_comma (split_comma raw) = raw" by (rule join_split_comma)
next
  fix w assume "w \<in> set (split_comma raw)"
  then show "CHR '','' \<notin> set w" by (rule split_comma_no_comma)
next
  show "clean_keywords raw =
     (case keep_keywords (split_comma raw) of [] \<Rightarrow> [''tds''] | k # ks \<Rightarrow> k # ks)"
    by (rule clean_keywords_keep)
next
  fix kw assume "kw \<in> set (clean_keywords raw)"
  then have "kw \<noteq> [] \<and> lower kw = kw \<and> strip kw = kw" by (rule clean_keywords_elem)
  then show "kw \<noteq> []" "lower kw = kw" "strip kw = kw" by simp_all
next
  show "find_tds_cols kws header =
     filter (\<lambda>col. \<exists>kw \<in> set kws. \<exists>a b. lower (py_str col) = a @ kw @ b) header"
    by (rule find_tds_cols_iff)
next
  show "set (keyword_positions kws header) =
     {p. p < length header \<and> (\<exists>kw \<in> set kws. \<exists>a b. lower (py_str (header ! p)) = a @ kw @ b)}"
    unfolding keyword_positions_set is_tds_col_iff ..
next
  fix k k' a b
  assume "k \<in> set (split_comma raw)" "strip k \<noteq> []" "lower k' = lower (strip k)"
    and h: "Str (a @ k' @ b) \<in> set header"
  then have "is_tds_col (clean_keywords raw) (Str (a @ k' @ b))"
    by (simp add: keyword_matches_any_case)
  then show "Str (a @ k' @ b) \<in> set (find_tds_cols (clean_keywords raw) header)"
    using h by (simp add: find_tds_cols_def)
next
  fix data st'
  assume "detect_table grid = Some data \<and>
        sheet_step lib fixed_cols (clean_keywords raw) st (sheet_name, grid) = Inr st'"
  then show "\<exists>frag. all_ledgers st' = all_ledgers st @ [frag] \<and> TDS_Amount \<in> set (columns frag) \<and>
         (\<forall>x \<in> set (body frag). \<exists>r. (fst x, r) \<in> set (body data) \<and>
            (\<forall>q<length (columns frag). columns frag ! q = TDS_Amount \<longrightarrow>
               snd x ! q = keyword_value lib (clean_keywords raw) data r))"
    using step_tds_cells by blast
qed

theorem keywords_and_column_discovery_witness:
  "clean_keywords '' TDS Payable, ,tds'' = [''tds payable'', ''tds''] \<and>
   Str ''Non-TDS Charges'' \<in> set (find_tds_cols (clean_keywords '' TDS Payable, ,tds'')
      [Str ''Date'', Str ''Amount'', Str ''Non-TDS Charges'']) \<and>
   set (keyword_positions [''tds''] (columns dataA)) = {3} \<and>
   (\<exists>frag. all_ledgers stateA = all_ledgers initial @ [frag] \<and> TDS_Amount \<in> set (columns frag) \<and>
      (\<forall>x \<in> set (body frag). \<exists>r. (fst x, r) \<in> set (body dataA) \<and>
         (\<forall>q<length (columns frag). columns frag ! q = TDS_Amount \<longrightarrow>
            snd x ! q = keyword_value integers_only (clean_keywords '' TDS Payable, ,tds'')
                          dataA r)))"
proof -
  have a: "''tds'' \<in> set (split_comma '' TDS Payable, ,tds'')" "strip ''tds'' \<noteq> []"
    "lower ''TDS'' = lower (strip ''tds'')"
    "Str (''Non-'' @ ''TDS'' @ '' Charges'') \<in> set [Str ''Date'', Str ''Amount'', Str ''Non-TDS Charges'']"
    by code_simp+
  have k: "(case keep_keywords (split_comma '' TDS Payable, ,tds'') of [] \<Rightarrow> [''tds'']
              | k # ks \<Rightarrow> k # ks) = [''tds payable'', ''tds'']"
    by code_simp
  have p: "{p. p < length (columns dataA) \<and>
              (\<exists>kw \<in> set [''tds'']. \<exists>a b. lower (py_str (columns dataA ! p)) = a @ kw @ b)} = {3}"
    unfolding is_tds_col_iff [symmetric]
  proof -
    have "\<forall>p<length (columns dataA). is_tds_col [''tds''] (columns dataA ! p) \<longleftrightarrow> p = 3"
      by code_simp
    moreover have "3 < length (columns dataA)" by code_simp
    ultimately show "{p. p < length (columns dataA) \<and> is_tds_col [''tds''] (columns dataA ! p)} = {3}"
      by auto
  qed
  have h: "detect_table sheetA = Some dataA \<and>
        sheet_step integers_only 3 (clean_keywords '' TDS Payable, ,tds'') initial (''A'', sheetA)
          = Inr stateA"
    by code_simp
  note T = keywords_and_column_discovery [of "'' TDS Payable, ,tds''" "[''tds'']"
        "columns dataA" sheetA integers_only 3 initial "''A''"]
  note U = keywords_and_column_discovery [of "'' TDS Payable, ,tds''" "[]"
        "[Str ''Date'', Str ''Amount'', Str ''Non-TDS Charges'']" sheetA integers_only 3 initial "''A''"]
  note T3 = T [THEN conjunct2, THEN conjunct2, THEN conjunct1]
  note T6 = T [THEN conjunct2, THEN conjunct2, THEN conjunct2, THEN conjunct2, THEN conjunct2,
               THEN conjunct1]
  note U7 = U [THEN conjunct2, THEN conjunct2, THEN conjunct2, THEN conjunct2, THEN conjunct2,
               THEN conjunct2, THEN conjunct1, rule_format, of "''tds''" "''TDS''" "''Non-''" "'' Charges''"]
  note T8 = T [THEN conjunct2, THEN conjunct2, THEN conjunct2, THEN conjunct2, THEN conjunct2,
               THEN conjunct2, THEN conjunct2, rule_format, OF h]
  have 1: "clean_keywords '' TDS Payable, ,tds'' = [''tds payable'', ''tds'']"
    using T3 k by simp
  have 2: "Str (''Non-'' @ ''TDS'' @ '' Charges'') \<in> set (find_tds_cols
      (clean_keywords '' TDS Payable, ,tds'') [Str ''Date'', Str ''Amount'', Str ''Non-TDS Charges''])"
    using a(1,2,3,4) by (rule U7)
  have 3: "set (keyword_positions [''tds''] (columns dataA)) = {3}"
    using T6 p by simp
  show ?thesis using 1 2 3 T8 by simp
qed

subsection \<open>Duplicate header labels (C9, C2, C1, C7, C8)\<close>

text \<open>
  C9. On a sheet headed \<open>Date, Amount, Amount\<close> and for two fixed columns, the slice of the
  first two labels \<open>Date, Amount\<close> holds three columns, for the selection by label takes both
  \<open>Amount\<close> columns, and the rename gives both the label \<open>Ledger_Amount\<close>: the slice is neither
  the first two columns nor is its last column the only one renamed.
\<close>

theorem slice_of_two_keeps_three_columns:
  "detect_table sheetDup = Some dataDup \<and>
   slice_to 2 (columns dataDup) = [Str ''Date'', Str ''Amount''] \<and>
   fixed_slice 2 dataDup =
     Inr \<lparr>columns = [Str ''Date'', Str ''Ledger_Amount'', Str ''Ledger_Amount''],
          body = [(1, [Str ''1-Apr-2024'', Num 100, Num 7])]\<rparr>"
  by code_simp

text \<open>
  C2. On a sheet with the two keyword columns \<open>TDS, TDS\<close> and the cells 10 and 5 in a row,
  the selection of the labels \<open>TDS, TDS\<close> takes each of the two columns twice, and the row's
  \<open>TDS_Amount\<close> in the result is 30, not the sum 15 of the cells of the matching columns.
\<close>

theorem duplicate_keyword_headers_counted_twice:
  "keyword_positions [''tds''] [Str ''Date'', Str ''Amount'', Str ''TDS'', Str ''TDS''] = [2, 3, 2, 3] \<and>
   process_file lib [(''S'', sheetDupTds)] 2 ''tds'' =
     Inr (Some \<lparr>columns = [Str ''Date'', Str ''Ledger_Amount'', Str ''TDS_Amount'', Str ''LedgerName''],
                body = [(0, [Str ''1-Apr-2024'', Num 100, Num 30, Str ''S''])]\<rparr>)"
  by code_simp

text \<open>
  C1. In a workbook whose first sheet is headed \<open>Date, Amount\<close> and whose second sheet is
  headed \<open>Date, Amount, Amount\<close>, for two fixed columns, the template locked from the first
  sheet is \<open>Date, Ledger_Amount\<close>, and the fragment of the second sheet has three slice
  columns \<open>Date, Ledger_Amount, Ledger_Amount\<close>: the selection of the template labels keeps
  both columns that carry the label, so the second sheet is not reconciled to the
  template, and its extra column is not dropped; stacking the two fragments then fails.
\<close>

theorem later_sheet_keeps_extra_column:
  "sheet_loop lib 2 [''tds''] initial [(''E'', sheetE), (''D'', sheetDup)] =
     Inr \<lparr>all_ledgers =
            [\<lparr>columns = [Str ''Date'', Str ''Ledger_Amount'', Str ''TDS_Amount'', Str ''LedgerName''],
              body = [(1, [Str ''1-Apr-2024'', Num 50, NA, Str ''E''])]\<rparr>,
             \<lparr>columns = [Str ''Date'', Str ''Ledger_Amount'', Str ''Ledger_Amount'',
                         Str ''TDS_Amount'', Str ''LedgerName''],
              body = [(1, [Str ''1-Apr-2024'', Num 100, Num 7, NA, Str ''D''])]\<rparr>],
          template_cols = Some [Str ''Date'', Str ''Ledger_Amount'']\<rparr> \<and>
   process_file lib [(''E'', sheetE), (''D'', sheetDup)] 2 ''tds'' = Inl InvalidIndexError"
  by code_simp

text \<open>
  C7. For the workbook of the one sheet headed \<open>Date, Amount, Amount\<close> and two fixed columns,
  the template is \<open>Date, Ledger_Amount, Ledger_Amount\<close>, and the selection of the final
  columns by label takes both \<open>Ledger_Amount\<close> columns for each of the two template entries:
  the result has four \<open>Ledger_Amount\<close> columns where the template has two, so its columns
  are not the template columns, \<open>TDS_Amount\<close>, \<open>LedgerName\<close>.
\<close>

theorem result_has_four_ledger_amount_columns:
  "sheet_loop lib 2 [''tds''] initial [(''D'', sheetDup)] =
     Inr \<lparr>all_ledgers =
            [\<lparr>columns = [Str ''Date'', Str ''Ledger_Amount'', Str ''Ledger_Amount'',
                         Str ''TDS_Amount'', Str ''LedgerName''],
              body = [(1, [Str ''1-Apr-2024'', Num 100, Num 7, NA, Str ''D''])]\<rparr>],
          template_cols = Some [Str ''Date'', Str ''Ledger_Amount'', Str ''Ledger_Amount'']\<rparr> \<and>
   process_file lib [(''D'', sheetDup)] 2 ''tds'' =
     Inr (Some \<lparr>columns = [Str ''Date'', Str ''Ledger_Amount'', Str ''Ledger_Amount'',
                           Str ''Ledger_Amount'', Str ''Ledger_Amount'', Str ''TDS_Amount'',
                           Str ''LedgerName''],
                body = [(0, [Str ''1-Apr-2024'', Num 100, Num 7, Num 100, Num 7, NA,
                             Str ''D''])]\<rparr>)"
  by code_simp


subsection \<open>Rows removed by the exclusion filter (C5, C10)\<close>

text \<open>
  C5. For the workbook of the one sheet headed \<open>Date, Voucher, Particulars, Amount, TDS
  Payable\<close> whose only row has \<open>Grand Total\<close> under \<open>Particulars\<close>, and four fixed columns, the
  filter finds the label \<open>Particulars\<close> and removes the row, but the result has a row for
  it all the same: the assignment of the keyword sums to the frame without rows gives the
  frame the rows of the table back, their cells empty, and the row stands in the result
  with its keyword sum 2 and the sheet name.
\<close>

theorem grand_total_row_returns_in_result:
  "find_particulars [Str ''Date'', Str ''Voucher'', Str ''Particulars'', Str ''Ledger_Amount'']
     = Some (Str ''Particulars'') \<and>
   is_grand_total (Str ''Grand Total'') \<and>
   process_file lib [(''G'', sheetG)] 4 ''tds payable, tds'' =
     Inr (Some \<lparr>columns = [Str ''Date'', Str ''Voucher'', Str ''Particulars'', Str ''Ledger_Amount'',
                           Str ''TDS_Amount'', Str ''LedgerName''],
                body = [(0, [NA, NA, NA, NA, Num 2, Str ''G''])]\<rparr>)"
  by code_simp

text \<open>
  C10. On the sheet headed \<open>Date, Particulars, Amount, TDS\<close> whose two rows are both grand
  total rows, with the keyword sums 7 and 8, and for three fixed columns, the filter
  removes both rows from the slice, and the fragment that the step appends holds both
  again, each with its keyword sum under \<open>TDS_Amount\<close> and its other cells empty: the sums
  of the excluded rows appear in the output.
\<close>

theorem excluded_rows_return_with_sums:
  "detect_table sheetTotals = Some dataTotals \<and>
   fixed_slice 3 dataTotals =
     Inr \<lparr>columns = [Str ''Date'', Str ''Particulars'', Str ''Ledger_Amount''],
          body = [(1, [NA, Str ''Grand Total'', Num 100]),
                  (2, [NA, Str ''Opening grand total'', Num 50])]\<rparr> \<and>
   drop_grand_total
     \<lparr>columns = [Str ''Date'', Str ''Particulars'', Str ''Ledger_Amount''],
      body = [(1, [NA, Str ''Grand Total'', Num 100]),
              (2, [NA, Str ''Opening grand total'', Num 50])]\<rparr> =
     Inr \<lparr>columns = [Str ''Date'', Str ''Particulars'', Str ''Ledger_Amount''], body = []\<rparr> \<and>
   sheet_step lib 3 [''tds''] initial (''T'', sheetTotals) =
     Inr \<lparr>all_ledgers =
            [\<lparr>columns = [Str ''Date'', Str ''Particulars'', Str ''Ledger_Amount'',
                         Str ''TDS_Amount'', Str ''LedgerName''],
              body = [(1, [NA, NA, NA, Num 7, Str ''T'']),
                      (2, [NA, NA, NA, Num 8, Str ''T''])]\<rparr>],
          template_cols = Some [Str ''Date'', Str ''Particulars'', Str ''Ledger_Amount'']\<rparr>"
  by code_simp

end
